theory Spec2Isabelle
  imports Main
begin

section \<open>Abstract syntax (ast\_nodes.py)\<close>

text \<open>
  The lexer's converters produce the canonical upper-case port names. The four
  cardinal names are the keys of \<open>TISNode.directions\<close> and of the mirror table in
  \<open>set_value_to_port\<close>; \<open>ANY\<close>, \<open>LAST\<close> and \<open>NIL\<close> are the virtual ports.
\<close>

datatype direction = UP | DOWN | LEFT | RIGHT

datatype port = Dir direction | ANY | LAST | NIL

text \<open>The opcodes are the fifteen INSTRUCTION literals of the token table.\<close>

datatype opcode =
    op_mov | op_nop | op_swp | op_swt | op_sav | op_add | op_sub | op_neg
  | op_jmp | op_jez | op_jnz | op_jgz | op_jlz | op_jro | op_hcf

datatype ast_node =
    IntegerLiteral int
  | PortLiteral port
  | RegisterLiteral string
  | Label string
  | LabelReference string
  | NArgumentInstruction opcode "ast_node list"

fun direction_name :: "direction \<Rightarrow> string" where
  "direction_name UP = ''UP''"
| "direction_name DOWN = ''DOWN''"
| "direction_name LEFT = ''LEFT''"
| "direction_name RIGHT = ''RIGHT''"

fun port_name :: "port \<Rightarrow> string" where
  "port_name (Dir d) = direction_name d"
| "port_name ANY = ''ANY''"
| "port_name LAST = ''LAST''"
| "port_name NIL = ''NIL''"

section \<open>Errors and node state (tis\_helpers.py, TISNode.\_\_init\_\_)\<close>

text \<open>
  \<open>TISSyntaxError\<close>, \<open>ExecutionError\<close> and \<open>ParserError\<close> are the repository's own
  exceptions; the others are the Python built-ins that lexer, parser and engine
  raise or run into, \<open>RecursionError\<close> being the one the interpreter raises when a
  call would nest deeper than its recursion limit allows.
\<close>

datatype error =
    TISSyntaxError | ExecutionError | ParserError | SyntaxError | NotImplementedError
  | TypeError | IndexError | KeyError | AttributeError | UnboundLocalError
  | ZeroDivisionError | RecursionError

datatype NodeWriteState = READABLE | WILL_BE_READABLE | RUNNING | WILL_BE_RUNNING

record tis_node =
  node_id :: nat
  ast :: "ast_node list"
  ast_instr_real_lookup :: "nat list"
  ast_real_instr_lookup :: "nat \<rightharpoonup> nat"
  ast_len :: nat
  instruction_pointer :: nat
  directions :: "direction \<Rightarrow> nat option"
  port_value :: "(port \<times> int) option"
  wait_port :: "port option"
  sent_value :: "(direction \<times> int) option"
  last_port :: "direction option"
  accs :: "int list"
  baks :: "int list"
  register_cursor :: nat
  label_table :: "string \<rightharpoonup> nat"
  state :: NodeWriteState

text \<open>
  The machine is a dictionary from node id to node object. Nodes are mutated in
  place and reach each other through that dictionary, so the model threads the
  whole dictionary and names the stepping node by its key.
\<close>

type_synonym grid = "nat \<rightharpoonup> tis_node"

datatype 'a outcome = Return 'a grid | Raise error grid

fun grid_of :: "'a outcome \<Rightarrow> grid" where
  "grid_of (Return _ g) = g"
| "grid_of (Raise _ g) = g"

definition node_at :: "grid \<Rightarrow> nat \<Rightarrow> tis_node" where
  "node_at g n = the (g n)"

definition upd :: "nat \<Rightarrow> (tis_node \<Rightarrow> tis_node) \<Rightarrow> grid \<Rightarrow> grid" where
  "upd n f g = g(n \<mapsto> f (node_at g n))"

text \<open>\<open>get_node_with_id\<close>: a missing key (also the key \<open>None\<close>) gives \<open>None\<close>.\<close>

fun get_node_with_id :: "grid \<Rightarrow> nat option \<Rightarrow> (nat \<times> tis_node) option" where
  "get_node_with_id g None = None"
| "get_node_with_id g (Some i) = (case g i of None \<Rightarrow> None | Some t \<Rightarrow> Some (i, t))"

text \<open>Python list indexing: a negative index counts from the end.\<close>

definition py_index :: "'a list \<Rightarrow> int \<Rightarrow> 'a option" where
  "py_index xs i =
     (if 0 \<le> i \<and> i < int (length xs) then Some (xs ! nat i)
      else if i < 0 \<and> - int (length xs) \<le> i then Some (xs ! nat (int (length xs) + i))
      else None)"

section \<open>Validation (tis\_helpers.py)\<close>

datatype node_type =
    T_IntegerLiteral | T_PortLiteral | T_RegisterLiteral | T_Label
  | T_LabelReference | T_NArgumentInstruction

fun type_of :: "ast_node \<Rightarrow> node_type" where
  "type_of (IntegerLiteral _) = T_IntegerLiteral"
| "type_of (PortLiteral _) = T_PortLiteral"
| "type_of (RegisterLiteral _) = T_RegisterLiteral"
| "type_of (Label _) = T_Label"
| "type_of (LabelReference _) = T_LabelReference"
| "type_of (NArgumentInstruction _ _) = T_NArgumentInstruction"

text \<open>
  The entries of \<open>opcode_check_dict\<close> come in four shapes: \<open>(n,)\<close>, \<open>(n, cls)\<close>,
  \<open>(n, (cls, ...))\<close> and \<open>(n, ((cls, ...), ...))\<close>. \<open>hcf\<close> has no entry.
\<close>

datatype check_types =
    NoTypes
  | OneClass node_type
  | Classes "node_type list"
  | PerArgument "node_type list list"

definition value_types :: "node_type list" where
  "value_types = [T_IntegerLiteral, T_PortLiteral, T_RegisterLiteral]"

fun opcode_check_dict :: "opcode \<Rightarrow> (nat \<times> check_types) option" where
  "opcode_check_dict op_mov =
     Some (2, PerArgument [value_types, [T_PortLiteral, T_RegisterLiteral]])"
| "opcode_check_dict op_nop = Some (0, NoTypes)"
| "opcode_check_dict op_swp = Some (0, NoTypes)"
| "opcode_check_dict op_swt = Some (1, Classes value_types)"
| "opcode_check_dict op_sav = Some (0, NoTypes)"
| "opcode_check_dict op_add = Some (1, Classes value_types)"
| "opcode_check_dict op_sub = Some (1, Classes value_types)"
| "opcode_check_dict op_neg = Some (0, NoTypes)"
| "opcode_check_dict op_jmp = Some (1, OneClass T_LabelReference)"
| "opcode_check_dict op_jez = Some (1, OneClass T_LabelReference)"
| "opcode_check_dict op_jnz = Some (1, OneClass T_LabelReference)"
| "opcode_check_dict op_jgz = Some (1, OneClass T_LabelReference)"
| "opcode_check_dict op_jlz = Some (1, OneClass T_LabelReference)"
| "opcode_check_dict op_jro = Some (1, Classes value_types)"
| "opcode_check_dict op_hcf = None"

text \<open>The conversion that makes the second component one tuple of classes per argument.\<close>

fun uniform :: "check_types \<Rightarrow> node_type list list" where
  "uniform NoTypes = []"
| "uniform (OneClass c) = [[c]]"
| "uniform (Classes cs) = [cs]"
| "uniform (PerArgument css) = css"

definition instr_arg_num_check :: "ast_node list \<Rightarrow> nat \<Rightarrow> error option" where
  "instr_arg_num_check args num = (if length args \<noteq> num then Some TISSyntaxError else None)"

definition instr_arg_type_check :: "ast_node \<Rightarrow> node_type list \<Rightarrow> error option" where
  "instr_arg_type_check node types =
     (if type_of node \<notin> set types then Some TISSyntaxError else None)"

text \<open>The loop \<open>for inx, arg in enumerate(node.args)\<close> with \<open>check_args[1][inx]\<close>.\<close>

fun check_arg_types :: "ast_node list \<Rightarrow> node_type list list \<Rightarrow> error option" where
  "check_arg_types [] tss = None"
| "check_arg_types (a # as) [] = Some IndexError"
| "check_arg_types (a # as) (ts # tss) =
     (case instr_arg_type_check a ts of
        Some e \<Rightarrow> Some e
      | None \<Rightarrow> check_arg_types as tss)"

text \<open>
  \<open>validate_instruction\<close> returns a label name for a \<open>LabelReference\<close> node and
  \<open>None\<close> otherwise, or raises.
\<close>

fun validate_instruction :: "ast_node \<Rightarrow> error + string option" where
  "validate_instruction (NArgumentInstruction opc args) =
     (case opcode_check_dict opc of
        Some (num, types) \<Rightarrow>
          (case instr_arg_num_check args num of
             Some e \<Rightarrow> Inl e
           | None \<Rightarrow>
               (if types \<noteq> NoTypes then
                  (case check_arg_types args (uniform types) of
                     Some e \<Rightarrow> Inl e
                   | None \<Rightarrow> Inr None)
                else Inr None))
      | None \<Rightarrow> (if opc = op_hcf then Inl TISSyntaxError else Inr None))"
| "validate_instruction (LabelReference name) = Inr (Some name)"
| "validate_instruction _ = Inr None"

fun validate_node :: "(string \<rightharpoonup> nat) \<Rightarrow> ast_node list \<Rightarrow> error option" where
  "validate_node table [] = None"
| "validate_node table (ast_node # rest) =
     (case validate_instruction ast_node of
        Inl e \<Rightarrow> Some e
      | Inr None \<Rightarrow> validate_node table rest
      | Inr (Some result) \<Rightarrow>
          (if table result = None then Some TISSyntaxError
           else validate_node table rest))"

section \<open>Node construction (TISNode.\_\_init\_\_)\<close>

fun is_instruction :: "ast_node \<Rightarrow> bool" where
  "is_instruction (NArgumentInstruction _ _) = True"
| "is_instruction _ = False"

fun is_label :: "ast_node \<Rightarrow> bool" where
  "is_label (Label _) = True"
| "is_label _ = False"

definition instr_real_lookup :: "ast_node list \<Rightarrow> nat list" where
  "instr_real_lookup a = map fst (filter (\<lambda>(inx, nd). is_instruction nd) (enumerate 0 a))"

definition real_instr_lookup :: "nat list \<Rightarrow> (nat \<rightharpoonup> nat)" where
  "real_instr_lookup l =
     fold (\<lambda>(instr_inx, instr_node_inx) m. m(instr_node_inx \<mapsto> instr_inx))
       (enumerate 0 l) Map.empty"

definition make_label_table :: "ast_node list \<Rightarrow> (string \<rightharpoonup> nat)" where
  "make_label_table a =
     fold (\<lambda>(inx, nd) m. case nd of Label name \<Rightarrow> m(name \<mapsto> inx) | _ \<Rightarrow> m)
       (enumerate 0 a) Map.empty"

text \<open>
  Neighbour ids from the node's id and the grid size. \<open>id % grid_width\<close> is
  evaluated only when \<open>id > 0\<close>; with a zero width it raises.
\<close>

definition make_directions :: "nat \<Rightarrow> nat \<Rightarrow> nat \<Rightarrow> direction \<Rightarrow> nat option" where
  "make_directions i grid_height grid_width d =
     (case d of
        UP \<Rightarrow> (if \<not> i < grid_width then Some (i - grid_width) else None)
      | DOWN \<Rightarrow> (if i + grid_width < grid_width * grid_height
                 then Some (i + grid_width) else None)
      | LEFT \<Rightarrow> (if i > 0 \<and> i mod grid_width \<noteq> 0 then Some (i - 1) else None)
      | RIGHT \<Rightarrow> (if i + 1 < grid_width * grid_height \<and> (i + 1) mod grid_width \<noteq> 0
                  then Some (i + 1) else None))"

text \<open>The fields as the constructor sets them, before validation.\<close>

definition fresh_node :: "nat \<Rightarrow> nat \<Rightarrow> nat \<Rightarrow> ast_node list \<Rightarrow> tis_node" where
  "fresh_node i grid_height grid_width a =
     \<lparr> node_id = i,
       ast = a,
       ast_instr_real_lookup = instr_real_lookup a,
       ast_real_instr_lookup = real_instr_lookup (instr_real_lookup a),
       ast_len = length a,
       instruction_pointer = 0,
       directions = make_directions i grid_height grid_width,
       port_value = None,
       wait_port = None,
       sent_value = None,
       last_port = None,
       accs = replicate 8 0,
       baks = replicate 8 0,
       register_cursor = 0,
       label_table = make_label_table a,
       state = RUNNING \<rparr>"

definition TISNode :: "nat \<Rightarrow> nat \<Rightarrow> nat \<Rightarrow> ast_node list option \<Rightarrow> error + tis_node" where
  "TISNode i grid_height grid_width ast_opt =
     (let a = (case ast_opt of None \<Rightarrow> [] | Some x \<Rightarrow> x) in
      if i > 0 \<and> grid_width = 0 then Inl ZeroDivisionError
      else
        (case validate_node (make_label_table a) a of
           Some e \<Rightarrow> Inl e
         | None \<Rightarrow> Inr (fresh_node i grid_height grid_width a)))"

section \<open>Port transfers (TISNode.get\_value\_from\_port, set\_value\_to\_port)\<close>

definition get_value_from_port :: "nat \<Rightarrow> port \<Rightarrow> grid \<Rightarrow> int option outcome" where
  "get_value_from_port n port g =
     (let self = node_at g n in
      case wait_port self of
        Some w \<Rightarrow>
          (case sent_value self of
             Some (d, v) \<Rightarrow>
               (let g1 = upd n (\<lambda>s. s\<lparr>last_port := Some d\<rparr>) g in
                case get_node_with_id g1 (directions (node_at g1 n) d) of
                  None \<Rightarrow> Raise AttributeError g1
                | Some (t, sender) \<Rightarrow>
                    Return (Some v) (upd t (\<lambda>s. s\<lparr>port_value := None\<rparr>) g1))
           | None \<Rightarrow> Return None g)
      | None \<Rightarrow>
          (if port = NIL then Return (Some 0) g
           else if port = LAST then
             (case last_port self of
                None \<Rightarrow> Return None g
              | Some d \<Rightarrow>
                  Return None
                    (upd n (\<lambda>s. s\<lparr>wait_port := Some (Dir d), state := WILL_BE_RUNNING\<rparr>) g))
           else
             Return None
               (upd n (\<lambda>s. s\<lparr>wait_port := Some port, state := WILL_BE_RUNNING\<rparr>) g)))"

fun mirror :: "direction \<Rightarrow> direction" where
  "mirror UP = DOWN"
| "mirror DOWN = UP"
| "mirror LEFT = RIGHT"
| "mirror RIGHT = LEFT"

text \<open>
  \<open>set_value_to_port\<close> called with one of the four cardinal names: the send is
  recorded in \<open>port_value\<close>, and the value is handed over only if the neighbour
  has code and is waiting on the mirrored port or on \<open>ANY\<close>.
\<close>

definition send_to_direction :: "nat \<Rightarrow> direction \<Rightarrow> int \<Rightarrow> grid \<Rightarrow> bool \<times> grid" where
  "send_to_direction n d v g =
     (let g1 = upd n (\<lambda>s. s\<lparr>port_value := Some (Dir d, v), state := WILL_BE_RUNNING\<rparr>) g in
      case directions (node_at g1 n) d of
        None \<Rightarrow> (False, g1)
      | Some t \<Rightarrow>
          (case g1 t of
             None \<Rightarrow> (False, g1)
           | Some target_node \<Rightarrow>
               (let look_for_port = mirror d in
                if wait_port target_node = Some ANY
                   \<or> wait_port target_node = Some (Dir look_for_port)
                then (True, upd t (\<lambda>s. s\<lparr>sent_value := Some (look_for_port, v)\<rparr>) g1)
                else (False, g1))))"

text \<open>The \<open>for direction in order\<close> loop of an \<open>ANY\<close> send, with its \<open>else\<close> clause.\<close>

fun send_any :: "nat \<Rightarrow> direction list \<Rightarrow> int \<Rightarrow> grid \<Rightarrow> bool \<times> grid" where
  "send_any n [] v g = (False, g)"
| "send_any n (d # ds) v g =
     (if directions (node_at g n) d \<noteq> None then
        (case send_to_direction n d v g of
           (True, g') \<Rightarrow> (True, g')
         | (False, g') \<Rightarrow> send_any n ds v g')
      else send_any n ds v g)"

definition order :: "direction list" where
  "order = [UP, LEFT, RIGHT, DOWN]"

definition set_value_to_port :: "nat \<Rightarrow> port \<Rightarrow> int \<Rightarrow> grid \<Rightarrow> bool \<times> grid" where
  "set_value_to_port n port v g =
     (case port of
        Dir d \<Rightarrow> send_to_direction n d v g
      | _ \<Rightarrow>
        (let g1 = upd n (\<lambda>s. s\<lparr>port_value := Some (port, v), state := WILL_BE_RUNNING\<rparr>) g in
         case port of
           ANY \<Rightarrow> send_any n order v g1
         | LAST \<Rightarrow>
             (case last_port (node_at g1 n) of
                None \<Rightarrow> (False, g1)
              | Some d \<Rightarrow> send_to_direction n d v g1)
         | _ \<Rightarrow> (True, g1)))"

section \<open>Instructions (TISNode.instr\_*)\<close>

text \<open>
  Every instruction function returns a completion flag. Python's \<open>None\<close> (a bare
  \<open>return\<close>, or falling off the end) and \<open>False\<close> are both read as "not complete" by
  the \<open>if\<close> in \<open>step\<close>, so the flag is a \<open>bool\<close>. An access
  \<open>self.accs[self._register_cursor]\<close> outside the list raises \<open>IndexError\<close>.
\<close>

definition acc_update :: "nat \<Rightarrow> (int \<Rightarrow> int) \<Rightarrow> grid \<Rightarrow> bool outcome" where
  "acc_update n f g =
     (let self = node_at g n; c = register_cursor self in
      if c < length (accs self)
      then Return True (upd n (\<lambda>s. s\<lparr>accs := (accs s)[c := f (accs s ! c)]\<rparr>) g)
      else Raise IndexError g)"

definition mov_store :: "nat \<Rightarrow> ast_node \<Rightarrow> int \<Rightarrow> grid \<Rightarrow> bool outcome" where
  "mov_store n destination source_val g =
     (case destination of
        PortLiteral p \<Rightarrow>
          (case set_value_to_port n p source_val g of (b, g') \<Rightarrow> Return b g')
      | RegisterLiteral _ \<Rightarrow> acc_update n (\<lambda>_. source_val) g
      | _ \<Rightarrow> Return False g)"

definition instr_mov :: "nat \<Rightarrow> ast_node list \<Rightarrow> grid \<Rightarrow> bool outcome" where
  "instr_mov n args g =
     (if length args \<noteq> 2 then Raise TISSyntaxError g
      else
        (let source = args ! 0; destination = args ! 1; self = node_at g n in
         case source of
           IntegerLiteral v \<Rightarrow> mov_store n destination v g
         | PortLiteral p \<Rightarrow>
             (case get_value_from_port n p g of
                Raise e g' \<Rightarrow> Raise e g'
              | Return None g' \<Rightarrow> Return False g'
              | Return (Some v) g' \<Rightarrow> mov_store n destination v g')
         | RegisterLiteral _ \<Rightarrow>
             (if register_cursor self < length (accs self)
              then mov_store n destination (accs self ! register_cursor self) g
              else Raise IndexError g)
         | _ \<Rightarrow>
             (case destination of
                PortLiteral _ \<Rightarrow> Raise UnboundLocalError g
              | RegisterLiteral _ \<Rightarrow> Raise UnboundLocalError g
              | _ \<Rightarrow> Return False g)))"

definition instr_add :: "nat \<Rightarrow> ast_node list \<Rightarrow> grid \<Rightarrow> bool outcome" where
  "instr_add n args g =
     (case args of
        [] \<Rightarrow> Raise IndexError g
      | add_operand # _ \<Rightarrow>
          (case add_operand of
             IntegerLiteral v \<Rightarrow> acc_update n (\<lambda>a. a + v) g
           | PortLiteral p \<Rightarrow>
               (case get_value_from_port n p g of
                  Raise e g' \<Rightarrow> Raise e g'
                | Return None g' \<Rightarrow> Return False g'
                | Return (Some v) g' \<Rightarrow> acc_update n (\<lambda>a. a + v) g')
           | RegisterLiteral _ \<Rightarrow> acc_update n (\<lambda>a. a * 2) g
           | _ \<Rightarrow> Return True g))"

definition instr_sub :: "nat \<Rightarrow> ast_node list \<Rightarrow> grid \<Rightarrow> bool outcome" where
  "instr_sub n args g =
     (case args of
        [] \<Rightarrow> Raise IndexError g
      | sub_operand # _ \<Rightarrow>
          (case sub_operand of
             IntegerLiteral v \<Rightarrow> acc_update n (\<lambda>a. a - v) g
           | PortLiteral p \<Rightarrow>
               (case get_value_from_port n p g of
                  Raise e g' \<Rightarrow> Raise e g'
                | Return None g' \<Rightarrow> Return False g'
                | Return (Some v) g' \<Rightarrow> acc_update n (\<lambda>a. a - v) g')
           | RegisterLiteral _ \<Rightarrow> acc_update n (\<lambda>_. 0) g
           | _ \<Rightarrow> Return True g))"

definition instr_sav :: "nat \<Rightarrow> ast_node list \<Rightarrow> grid \<Rightarrow> bool outcome" where
  "instr_sav n args g =
     (let self = node_at g n; c = register_cursor self in
      if c < length (accs self) \<and> c < length (baks self)
      then Return True (upd n (\<lambda>s. s\<lparr>baks := (baks s)[c := accs s ! c]\<rparr>) g)
      else Raise IndexError g)"

definition instr_swp :: "nat \<Rightarrow> ast_node list \<Rightarrow> grid \<Rightarrow> bool outcome" where
  "instr_swp n args g =
     (let self = node_at g n; c = register_cursor self in
      if c < length (accs self) \<and> c < length (baks self)
      then Return True
             (upd n (\<lambda>s. s\<lparr>accs := (accs s)[c := baks s ! c],
                            baks := (baks s)[c := accs s ! c]\<rparr>) g)
      else Raise IndexError g)"

definition instr_neg :: "nat \<Rightarrow> ast_node list \<Rightarrow> grid \<Rightarrow> bool outcome" where
  "instr_neg n args g = acc_update n (\<lambda>a. a * (- 1)) g"

definition instr_nop :: "nat \<Rightarrow> ast_node list \<Rightarrow> grid \<Rightarrow> bool outcome" where
  "instr_nop n args g = Return True g"

text \<open>
  \<open>instr_swt\<close>: after a port read the source tests \<open>swt_operand is None\<close>, the
  operand node, which is never \<open>None\<close>; so a read that returned no value goes on
  to the range check, where \<open>len(self.accs) > None\<close> raises \<open>TypeError\<close>.
\<close>

definition swt_switch :: "nat \<Rightarrow> int \<Rightarrow> grid \<Rightarrow> bool outcome" where
  "swt_switch n swt_operand_value g =
     (if \<not> (int (length (accs (node_at g n))) > swt_operand_value \<and> swt_operand_value \<ge> 0)
      then Raise TISSyntaxError g
      else Return True (upd n (\<lambda>s. s\<lparr>register_cursor := nat swt_operand_value\<rparr>) g))"

definition instr_swt :: "nat \<Rightarrow> ast_node list \<Rightarrow> grid \<Rightarrow> bool outcome" where
  "instr_swt n args g =
     (case args of
        [] \<Rightarrow> Raise IndexError g
      | swt_operand # _ \<Rightarrow>
          (case swt_operand of
             IntegerLiteral v \<Rightarrow> swt_switch n v g
           | PortLiteral p \<Rightarrow>
               (case get_value_from_port n p g of
                  Raise e g' \<Rightarrow> Raise e g'
                | Return None g' \<Rightarrow> Raise TypeError g'
                | Return (Some v) g' \<Rightarrow> swt_switch n v g')
           | _ \<Rightarrow>
               (let self = node_at g n in
                if register_cursor self < length (accs self)
                then swt_switch n (accs self ! register_cursor self) g
                else Raise IndexError g)))"

text \<open>
  \<open>node.args[0].name\<close>: every literal but \<open>IntegerLiteral\<close> has a \<open>name\<close> field; an
  instruction node has none.
\<close>

fun name_of :: "ast_node \<Rightarrow> string option" where
  "name_of (PortLiteral p) = Some (port_name p)"
| "name_of (RegisterLiteral s) = Some s"
| "name_of (Label s) = Some s"
| "name_of (LabelReference s) = Some s"
| "name_of (IntegerLiteral _) = None"
| "name_of (NArgumentInstruction _ _) = None"

definition instr_jmp :: "nat \<Rightarrow> ast_node list \<Rightarrow> grid \<Rightarrow> bool outcome" where
  "instr_jmp n args g =
     (case args of
        [] \<Rightarrow> Raise IndexError g
      | a # _ \<Rightarrow>
          (case name_of a of
             None \<Rightarrow> Raise AttributeError g
           | Some l \<Rightarrow>
               (case label_table (node_at g n) l of
                  None \<Rightarrow> Raise KeyError g
                | Some i \<Rightarrow> Return True (upd n (\<lambda>s. s\<lparr>instruction_pointer := i\<rparr>) g))))"

text \<open>
  The conditional jumps read the current accumulator and, when the test holds,
  run \<open>instr_jmp\<close> on a fresh \<open>jmp\<close> node carrying \<open>node.args[0]\<close>. \<open>jez\<close> and
  \<open>jnz\<close> test with \<open>is 0\<close>; CPython has one object for the integer 0, so this is
  equality with 0.
\<close>

definition cond_jump :: "(int \<Rightarrow> bool) \<Rightarrow> nat \<Rightarrow> ast_node list \<Rightarrow> grid \<Rightarrow> bool outcome" where
  "cond_jump test n args g =
     (let self = node_at g n in
      if register_cursor self < length (accs self) then
        (if test (accs self ! register_cursor self) then
           (case args of
              [] \<Rightarrow> Raise IndexError g
            | a # _ \<Rightarrow> instr_jmp n [a] g)
         else Return True g)
      else Raise IndexError g)"

definition instr_jez :: "nat \<Rightarrow> ast_node list \<Rightarrow> grid \<Rightarrow> bool outcome" where
  "instr_jez = cond_jump (\<lambda>a. a = 0)"

definition instr_jnz :: "nat \<Rightarrow> ast_node list \<Rightarrow> grid \<Rightarrow> bool outcome" where
  "instr_jnz = cond_jump (\<lambda>a. a \<noteq> 0)"

definition instr_jgz :: "nat \<Rightarrow> ast_node list \<Rightarrow> grid \<Rightarrow> bool outcome" where
  "instr_jgz = cond_jump (\<lambda>a. a > 0)"

definition instr_jlz :: "nat \<Rightarrow> ast_node list \<Rightarrow> grid \<Rightarrow> bool outcome" where
  "instr_jlz = cond_jump (\<lambda>a. a < 0)"

definition jro_jump :: "nat \<Rightarrow> int \<Rightarrow> grid \<Rightarrow> bool outcome" where
  "jro_jump n jro_operand_value g =
     (let self = node_at g n in
      case ast_real_instr_lookup self (instruction_pointer self) of
        None \<Rightarrow> Raise KeyError g
      | Some k \<Rightarrow>
          (case py_index (ast_instr_real_lookup self) (int k + jro_operand_value - 1) of
             None \<Rightarrow> Raise IndexError g
           | Some i \<Rightarrow> Return True (upd n (\<lambda>s. s\<lparr>instruction_pointer := i\<rparr>) g)))"

definition instr_jro :: "nat \<Rightarrow> ast_node list \<Rightarrow> grid \<Rightarrow> bool outcome" where
  "instr_jro n args g =
     (case args of
        [] \<Rightarrow> Raise IndexError g
      | jro_operand # _ \<Rightarrow>
          (case jro_operand of
             IntegerLiteral v \<Rightarrow> jro_jump n v g
           | PortLiteral p \<Rightarrow>
               (case get_value_from_port n p g of
                  Raise e g' \<Rightarrow> Raise e g'
                | Return None g' \<Rightarrow> Return False g'
                | Return (Some v) g' \<Rightarrow> jro_jump n v g')
           | _ \<Rightarrow>
               (let self = node_at g n in
                if register_cursor self < length (accs self)
                then jro_jump n (accs self ! register_cursor self) g
                else Raise IndexError g)))"

text \<open>
  \<open>do_instr\<close> looks the handler up by name; \<open>hcf\<close> has none. A node that is not an
  instruction has no \<open>op\<close> attribute.
\<close>

definition do_instr :: "nat \<Rightarrow> ast_node \<Rightarrow> grid \<Rightarrow> bool outcome" where
  "do_instr n instruction_node g =
     (case instruction_node of
        NArgumentInstruction opc args \<Rightarrow>
          (case opc of
             op_mov \<Rightarrow> instr_mov n args g
           | op_nop \<Rightarrow> instr_nop n args g
           | op_swp \<Rightarrow> instr_swp n args g
           | op_swt \<Rightarrow> instr_swt n args g
           | op_sav \<Rightarrow> instr_sav n args g
           | op_add \<Rightarrow> instr_add n args g
           | op_sub \<Rightarrow> instr_sub n args g
           | op_neg \<Rightarrow> instr_neg n args g
           | op_jmp \<Rightarrow> instr_jmp n args g
           | op_jez \<Rightarrow> instr_jez n args g
           | op_jnz \<Rightarrow> instr_jnz n args g
           | op_jgz \<Rightarrow> instr_jgz n args g
           | op_jlz \<Rightarrow> instr_jlz n args g
           | op_jro \<Rightarrow> instr_jro n args g
           | op_hcf \<Rightarrow> Raise NotImplementedError g)
      | _ \<Rightarrow> Raise AttributeError g)"

section \<open>The step function (TISNode.step)\<close>

text \<open>
  \<open>incr_instr_pointer\<close> compares the incremented pointer with \<open>ast_len\<close> by \<open>is\<close>,
  the identity of the two integer objects. CPython keeps one object for each
  integer from -5 to 256, so up to 256 identity is equality; above that the sum
  and the stored length are two objects and the test is false, also when the
  numbers are equal.
\<close>

definition is_same_int :: "nat \<Rightarrow> nat \<Rightarrow> bool" where
  "is_same_int a b = (a = b \<and> a \<le> 256)"

definition incr_instr_pointer :: "nat \<Rightarrow> grid \<Rightarrow> grid" where
  "incr_instr_pointer n g =
     upd n (\<lambda>s. s\<lparr>instruction_pointer :=
                    (if is_same_int (instruction_pointer s + 1) (ast_len s) then 0
                     else instruction_pointer s + 1)\<rparr>) g"

datatype step_result = Stepped grid | Raised error grid

text \<open>The three branches of \<open>step\<close> that do not call \<open>step\<close> again.\<close>

definition step_waiting :: "nat \<Rightarrow> ast_node \<Rightarrow> grid \<Rightarrow> step_result" where
  "step_waiting n cur_node g =
     (if sent_value (node_at g n) \<noteq> None then
        (case do_instr n cur_node g of
           Raise e g' \<Rightarrow> Raised e g'
         | Return True g' \<Rightarrow>
             Stepped (incr_instr_pointer n
               (upd n (\<lambda>s. s\<lparr>wait_port := None, sent_value := None, state := RUNNING\<rparr>) g'))
         | Return False g' \<Rightarrow> Stepped g')
      else Stepped g)"

definition step_sending :: "nat \<Rightarrow> ast_node \<Rightarrow> grid \<Rightarrow> step_result" where
  "step_sending n cur_node g =
     (case do_instr n cur_node g of
        Raise e g' \<Rightarrow> Raised e g'
      | Return True g' \<Rightarrow>
          Stepped (incr_instr_pointer n
            (upd n (\<lambda>s. s\<lparr>port_value := None, state := RUNNING\<rparr>) g'))
      | Return False g' \<Rightarrow> Stepped g')"

definition step_instruction :: "nat \<Rightarrow> ast_node \<Rightarrow> grid \<Rightarrow> step_result" where
  "step_instruction n cur_node g =
     (case do_instr n cur_node g of
        Raise e g' \<Rightarrow> Raised e g'
      | Return True g' \<Rightarrow> Stepped (incr_instr_pointer n g')
      | Return False g' \<Rightarrow> Stepped g')"

text \<open>
  A running node that stands on a label is the one case in which \<open>step\<close> calls
  itself: the pointer is advanced and the whole function runs again.
\<close>

definition on_label :: "nat \<Rightarrow> grid \<Rightarrow> bool" where
  "on_label n g =
     (let self = node_at g n in
      instruction_pointer self < length (ast self)
      \<and> wait_port self = None \<and> port_value self = None
      \<and> is_label (ast self ! instruction_pointer self))"

definition step_once :: "nat \<Rightarrow> grid \<Rightarrow> step_result" where
  "step_once n g =
     (let self = node_at g n in
      if \<not> instruction_pointer self < length (ast self) then Raised IndexError g
      else
        (let cur_node = ast self ! instruction_pointer self in
         if wait_port self \<noteq> None then step_waiting n cur_node g
         else if port_value self \<noteq> None then step_sending n cur_node g
         else if is_instruction cur_node then step_instruction n cur_node g
         else Raised ExecutionError g))"

text \<open>
  Two cases of \<open>step\<close> end without a call: the pointer is outside the statement
  list (\<open>self.ast[self.instruction_pointer]\<close> raises), or the node waits on a port
  and nothing has been sent to it.
\<close>

definition returns_at_once :: "nat \<Rightarrow> grid \<Rightarrow> bool" where
  "returns_at_once n g =
     (let self = node_at g n in
      \<not> instruction_pointer self < length (ast self)
      \<or> (wait_port self \<noteq> None \<and> sent_value self = None))"

text \<open>
  Below the frame of \<open>step\<close> a statement opens at most five more frames, one
  inside the other: \<open>do_instr\<close>, the instruction's function, \<open>set_value_to_port\<close>,
  its call of itself for \<open>ANY\<close> or \<open>LAST\<close>, and \<open>get_node_with_id\<close>.
\<close>

definition statement_frames :: nat where
  "statement_frames = 5"

text \<open>
  \<open>step\<close> itself. The source puts no bound on the recursion over labels; the
  interpreter does, and raises \<open>RecursionError\<close> at the call that would exceed its
  recursion limit. \<open>frames\<close> is the number of frames the interpreter can still
  open when \<open>step\<close> is called. With none left the call itself fails. On a label
  the frame of \<open>step\<close> needs one more for \<open>incr_instr_pointer\<close>, and then for the
  call of \<open>step\<close>, which leaves one frame less. The calls inside a statement are
  not followed frame by frame: with room for \<open>statement_frames\<close> of them below the
  frame of \<open>step\<close> the statement runs as \<open>step_once\<close> has it, and with less room
  the model gives no result (\<open>None\<close>), except where \<open>step\<close> ends without a call.
\<close>

fun step :: "nat \<Rightarrow> nat \<Rightarrow> grid \<Rightarrow> step_result option" where
  "step 0 n g = Some (Raised RecursionError g)"
| "step (Suc frames) n g =
     (if on_label n g then
        (if frames = 0 then Some (Raised RecursionError g)
         else step frames n (incr_instr_pointer n g))
      else if returns_at_once n g then Some (step_once n g)
      else if frames < statement_frames then None
      else Some (step_once n g))"

section \<open>The driver loop (tis\_machine.py)\<close>

text \<open>
  One tick calls \<open>step\<close> on every node of the machine once, in the order of the
  dictionary; the loop ends at the first exception. Every call is made from the
  same loop, so each has the same number of \<open>frames\<close> left.
\<close>

fun tick :: "nat \<Rightarrow> nat list \<Rightarrow> grid \<Rightarrow> step_result option" where
  "tick frames [] g = Some (Stepped g)"
| "tick frames (n # ns) g =
     (case step frames n g of
        Some (Stepped g') \<Rightarrow> tick frames ns g'
      | r \<Rightarrow> r)"

fun run :: "nat \<Rightarrow> nat \<Rightarrow> nat list \<Rightarrow> grid \<Rightarrow> step_result option" where
  "run frames 0 ids g = Some (Stepped g)"
| "run frames (Suc k) ids g =
     (case tick frames ids g of
        Some (Stepped g') \<Rightarrow> run frames k ids g'
      | r \<Rightarrow> r)"

section \<open>Lexer (tis\_lexer.py)\<close>

datatype token_name =
    INSTRUCTION | REGISTER | INTEGER | PORT | NODE_SPECIFIER | SEPARATOR
  | LABEL | LABEL_REF | WHITESPACE | COMMENT

text \<open>
  A token value is what the definition's converter returns: an opcode or port
  name, \<open>''ACC''\<close>, an integer, a node id, label text, or (no converter) the
  matched text itself.
\<close>

datatype token_value =
    V_opcode opcode | V_port port | V_register string | V_int int | V_node nat
  | V_text string

datatype pattern = Literal string | Regex "string \<Rightarrow> string option"

record token_def =
  name :: token_name
  matcher :: pattern
  converter :: "string \<Rightarrow> token_value"

record token =
  ttype :: token_name
  tvalue :: token_value
  slice_start :: nat
  slice_stop :: nat

subsection \<open>Characters\<close>

definition ord :: "char \<Rightarrow> nat" where
  "ord c = of_char c"

definition is_digit :: "char \<Rightarrow> bool" where
  "is_digit c = (48 \<le> ord c \<and> ord c \<le> 57)"

definition is_nonzero_digit :: "char \<Rightarrow> bool" where
  "is_nonzero_digit c = (49 \<le> ord c \<and> ord c \<le> 57)"

text \<open>
  The class \<open>[0-9a-zA-z~`$%^&*()_\-+={}\[\]|\;'\"<>.?/]\<close> of the label rules.
  The range \<open>A-z\<close> runs from 65 to 122 and so holds \<open>[ \ ] ^ _ `\<close> as well; the
  class leaves out the space, \<open>!\<close>, \<open>#\<close>, the comma, the colon and \<open>@\<close>.
\<close>

definition is_symbol_char :: "char \<Rightarrow> bool" where
  "is_symbol_char c =
     (let n = ord c in
      (48 \<le> n \<and> n \<le> 57) \<or> (65 \<le> n \<and> n \<le> 122)
      \<or> n \<in> {126, 96, 36, 37, 94, 38, 42, 40, 41, 95, 45, 43, 61, 123, 125, 91, 93,
               124, 92, 59, 39, 34, 60, 62, 46, 63, 47})"

definition is_space_char :: "char \<Rightarrow> bool" where
  "is_space_char c = (ord c = 32 \<or> ord c = 10 \<or> ord c = 9)"

text \<open>\<open>str.lower\<close> on the ASCII letters.\<close>

definition lower_char :: "char \<Rightarrow> char" where
  "lower_char c = (if 65 \<le> ord c \<and> ord c \<le> 90 then char_of (ord c + 32) else c)"

definition lower :: "string \<Rightarrow> string" where
  "lower s = map lower_char s"

definition startswith :: "string \<Rightarrow> string \<Rightarrow> bool" where
  "startswith s p = (take (length p) s = p)"

subsection \<open>The regular expressions, anchored at the start of the text\<close>

text \<open>\<open>(-?([1-9])([0-9]*))|(0)\<close>\<close>

fun re_integer :: "string \<Rightarrow> string option" where
  "re_integer [] = None"
| "re_integer (c # cs) =
     (if c = CHR ''-'' then
        (case cs of
           [] \<Rightarrow> None
         | d # ds \<Rightarrow> if is_nonzero_digit d then Some (c # d # takeWhile is_digit ds) else None)
      else if is_nonzero_digit c then Some (c # takeWhile is_digit cs)
      else if c = CHR ''0'' then Some [c]
      else None)"

text \<open>\<open>(@)([0-9]+)\<close>\<close>

fun re_node_specifier :: "string \<Rightarrow> string option" where
  "re_node_specifier [] = None"
| "re_node_specifier (c # cs) =
     (if c = CHR ''@'' \<and> takeWhile is_digit cs \<noteq> [] then Some (c # takeWhile is_digit cs)
      else None)"

text \<open>\<open>,+\<close>\<close>

definition re_separator :: "string \<Rightarrow> string option" where
  "re_separator s =
     (if takeWhile (\<lambda>c. c = CHR '','') s \<noteq> [] then Some (takeWhile (\<lambda>c. c = CHR '','') s)
      else None)"

text \<open>
  \<open>^((...)+?:)\<close>: the shortest run of class characters that a colon follows. The
  colon is not in the class, so that is the whole run.
\<close>

definition re_label :: "string \<Rightarrow> string option" where
  "re_label s =
     (let run = takeWhile is_symbol_char s in
      if run \<noteq> [] \<and> startswith (drop (length run) s) '':'' then Some (run @ '':'')
      else None)"

text \<open>\<open>([...])+\<close>\<close>

definition re_label_ref :: "string \<Rightarrow> string option" where
  "re_label_ref s =
     (if takeWhile is_symbol_char s \<noteq> [] then Some (takeWhile is_symbol_char s) else None)"

text \<open>\<open>[ \n\t]+\<close>\<close>

definition re_whitespace :: "string \<Rightarrow> string option" where
  "re_whitespace s =
     (if takeWhile is_space_char s \<noteq> [] then Some (takeWhile is_space_char s) else None)"

text \<open>\<open>#[ ...]+\<close>: the class of the label rules and the space.\<close>

fun re_comment :: "string \<Rightarrow> string option" where
  "re_comment [] = None"
| "re_comment (c # cs) =
     (let body = takeWhile (\<lambda>x. ord x = 32 \<or> is_symbol_char x) cs in
      if c = CHR ''#'' \<and> body \<noteq> [] then Some (c # body) else None)"

subsection \<open>Converters\<close>

definition digit_value :: "char \<Rightarrow> nat" where
  "digit_value c = ord c - 48"

definition nat_of_digits :: "string \<Rightarrow> nat" where
  "nat_of_digits s = foldl (\<lambda>a c. 10 * a + digit_value c) 0 s"

text \<open>Python's \<open>int\<close> on the text of an INTEGER match.\<close>

definition int_of_string :: "string \<Rightarrow> int" where
  "int_of_string s =
     (case s of
        [] \<Rightarrow> 0
      | c # cs \<Rightarrow> if c = CHR ''-'' then - int (nat_of_digits cs) else int (nat_of_digits s))"

subsection \<open>The token definitions, in the order of \<open>TokenType._defs\<close>\<close>

definition instruction_def :: "string \<Rightarrow> opcode \<Rightarrow> token_def" where
  "instruction_def text opc =
     \<lparr>name = INSTRUCTION, matcher = Literal text, converter = (\<lambda>s. V_opcode opc)\<rparr>"

definition port_def :: "string \<Rightarrow> port \<Rightarrow> token_def" where
  "port_def text p = \<lparr>name = PORT, matcher = Literal text, converter = (\<lambda>s. V_port p)\<rparr>"

definition defs :: "token_def list" where
  "defs =
     [instruction_def ''mov'' op_mov, instruction_def ''nop'' op_nop,
      instruction_def ''swp'' op_swp, instruction_def ''swt'' op_swt,
      instruction_def ''sav'' op_sav, instruction_def ''add'' op_add,
      instruction_def ''sub'' op_sub, instruction_def ''neg'' op_neg,
      instruction_def ''jmp'' op_jmp, instruction_def ''jez'' op_jez,
      instruction_def ''jnz'' op_jnz, instruction_def ''jgz'' op_jgz,
      instruction_def ''jlz'' op_jlz, instruction_def ''jro'' op_jro,
      instruction_def ''hcf'' op_hcf,
      \<lparr>name = REGISTER, matcher = Literal ''acc'', converter = (\<lambda>s. V_register ''ACC'')\<rparr>,
      \<lparr>name = INTEGER, matcher = Regex re_integer, converter = (\<lambda>s. V_int (int_of_string s))\<rparr>,
      port_def ''up'' (Dir UP), port_def ''down'' (Dir DOWN), port_def ''left'' (Dir LEFT),
      port_def ''right'' (Dir RIGHT), port_def ''last'' LAST, port_def ''any'' ANY,
      port_def ''nil'' NIL,
      \<lparr>name = NODE_SPECIFIER, matcher = Regex re_node_specifier,
        converter = (\<lambda>s. V_node (nat_of_digits (tl s)))\<rparr>,
      \<lparr>name = SEPARATOR, matcher = Regex re_separator, converter = V_text\<rparr>,
      \<lparr>name = LABEL, matcher = Regex re_label, converter = (\<lambda>s. V_text (butlast s))\<rparr>,
      \<lparr>name = LABEL_REF, matcher = Regex re_label_ref, converter = V_text\<rparr>,
      \<lparr>name = WHITESPACE, matcher = Regex re_whitespace, converter = V_text\<rparr>,
      \<lparr>name = COMMENT, matcher = Regex re_comment, converter = V_text\<rparr>]"

subsection \<open>\<open>get_first_token\<close>\<close>

text \<open>What a definition matches at the start of \<open>match_text\<close>: the \<open>match_value\<close>.\<close>

definition match_def :: "token_def \<Rightarrow> string \<Rightarrow> string option" where
  "match_def token_type match_text =
     (case matcher token_type of
        Literal p \<Rightarrow> if \<not> startswith (lower match_text) p then None else Some p
      | Regex r \<Rightarrow> r match_text)"

text \<open>
  The names whose definitions make up the tuple
  \<open>(*INSTRUCTION, *PORT, REGISTER, INTEGER)\<close>.
\<close>

definition outranks_label_ref :: "token_name \<Rightarrow> bool" where
  "outranks_label_ref n = (n = INSTRUCTION \<or> n = PORT \<or> n = REGISTER \<or> n = INTEGER)"

text \<open>One pass of the loop body, on the pair \<open>(token, token_text)\<close>.\<close>

definition try_def ::
  "string \<Rightarrow> nat \<Rightarrow> token_def \<Rightarrow> token option \<times> string \<Rightarrow> token option \<times> string" where
  "try_def match_text start token_type st =
     (case match_def token_type match_text of
        None \<Rightarrow> st
      | Some match_value \<Rightarrow>
          if length (snd st) > length match_value then st
          else if name token_type = LABEL_REF \<and> fst st \<noteq> None
                  \<and> outranks_label_ref (ttype (the (fst st))) then st
          else (Some \<lparr>ttype = name token_type,
                       tvalue = converter token_type match_value,
                       slice_start = start,
                       slice_stop = start + length match_value\<rparr>,
                match_value))"

definition get_first_token :: "string \<Rightarrow> nat \<Rightarrow> token option" where
  "get_first_token source start =
     fst (fold (try_def (drop start source) start) defs (None, []))"

subsection \<open>\<open>lex_gen\<close> and \<open>lex\<close>\<close>

text \<open>The generator loop; \<open>None\<close> stands for a loop that never ends.\<close>

partial_function (option) lex_gen :: "string \<Rightarrow> nat \<Rightarrow> token list \<Rightarrow> token list option" where
  "lex_gen text start acc =
     (if start \<ge> length text then Some (rev acc)
      else
        (case get_first_token text start of
           None \<Rightarrow> Some (rev acc)
         | Some tok \<Rightarrow> lex_gen text (slice_stop tok) (tok # acc)))"

declare lex_gen.simps [code]

definition lex :: "string \<Rightarrow> (error + token list) option" where
  "lex text =
     (case lex_gen text 0 [] of
        None \<Rightarrow> None
      | Some tokens \<Rightarrow>
          Some (if length tokens = 0 then Inl SyntaxError
                else if \<not> (slice_start (hd tokens) = 0 \<and> slice_stop (last tokens) = length text)
                then Inl SyntaxError
                else Inr tokens))"


section \<open>Parser (tis\_parser.py)\<close>

text \<open>
  A \<open>MultiStack\<close> is a token list with a cursor; the model keeps the tokens from
  the cursor on. \<open>filter_token_stack\<close> drops whitespace and comments.
\<close>

definition filter_token_stack :: "token list \<Rightarrow> token list" where
  "filter_token_stack items = filter (\<lambda>item. ttype item \<noteq> WHITESPACE \<and> ttype item \<noteq> COMMENT) items"

text \<open>
  The expression parsers for one operand token: each pops the token, expecting
  its own type, and wraps the token's value.
\<close>

fun operand_node :: "token \<Rightarrow> ast_node option" where
  "operand_node tok =
     (case (ttype tok, tvalue tok) of
        (INTEGER, V_int v) \<Rightarrow> Some (IntegerLiteral v)
      | (PORT, V_port p) \<Rightarrow> Some (PortLiteral p)
      | (REGISTER, V_register r) \<Rightarrow> Some (RegisterLiteral r)
      | (LABEL_REF, V_text l) \<Rightarrow> Some (LabelReference l)
      | _ \<Rightarrow> None)"

definition is_operand_token :: "token \<Rightarrow> bool" where
  "is_operand_token tok =
     (ttype tok \<in> {SEPARATOR, INTEGER, PORT, REGISTER, LABEL_REF})"

text \<open>
  The \<open>while True\<close> loop of \<open>InstructionStatement.parse\<close>, after the opcode has
  been popped: it returns the instruction node and the tokens left.
\<close>

fun instruction_arguments ::
  "opcode \<Rightarrow> ast_node list \<Rightarrow> bool \<Rightarrow> token list \<Rightarrow> error + ast_node \<times> token list" where
  "instruction_arguments opc args last_was_sep [] = Inr (NArgumentInstruction opc args, [])"
| "instruction_arguments opc args last_was_sep (next_token # rest) =
     (if \<not> is_operand_token next_token
      then Inr (NArgumentInstruction opc args, next_token # rest)
      else if length args > 0 \<and> \<not> (last_was_sep \<or> ttype next_token = SEPARATOR)
      then Inl ParserError
      else if ttype next_token = SEPARATOR
      then instruction_arguments opc args True rest
      else
        (case operand_node next_token of
           None \<Rightarrow> Inl ParserError
         | Some a \<Rightarrow> instruction_arguments opc (args @ [a]) False rest))"

definition InstructionStatement :: "token list \<Rightarrow> error + ast_node \<times> token list" where
  "InstructionStatement toks =
     (case toks of
        [] \<Rightarrow> Inl IndexError
      | instruction_token # rest \<Rightarrow>
          (case (ttype instruction_token, tvalue instruction_token) of
             (INSTRUCTION, V_opcode opc) \<Rightarrow> instruction_arguments opc [] True rest
           | _ \<Rightarrow> Inl ParserError))"

lemma instruction_arguments_shorter:
  "instruction_arguments opc args b toks = Inr (nd, rest) \<Longrightarrow> length rest \<le> length toks"
  by (induction opc args b toks rule: instruction_arguments.induct)
     (auto split: if_splits option.splits)

lemma InstructionStatement_shorter:
  "InstructionStatement toks = Inr (nd, rest) \<Longrightarrow> length rest < length toks"
  by (auto simp: InstructionStatement_def split: list.splits prod.splits token_name.splits
      token_value.splits dest: instruction_arguments_shorter)

text \<open>
  \<open>SingleNodeASTParser.parse\<close>. On a comment the source does \<open>pass\<close> without
  popping, a loop that never ends; that is the result \<open>None\<close>.
\<close>

function SingleNodeASTParser ::
  "ast_node list \<Rightarrow> token list \<Rightarrow> (error + ast_node list) option" where
  "SingleNodeASTParser nodes [] = Some (Inr nodes)"
| "SingleNodeASTParser nodes (next_token # rest) =
     (if ttype next_token = INSTRUCTION then
        (case InstructionStatement (next_token # rest) of
           Inl e \<Rightarrow> Some (Inl e)
         | Inr (nd, rest') \<Rightarrow> SingleNodeASTParser (nodes @ [nd]) rest')
      else if ttype next_token = LABEL then
        (case tvalue next_token of
           V_text l \<Rightarrow> SingleNodeASTParser (nodes @ [Label l]) rest
         | _ \<Rightarrow> Some (Inl ParserError))
      else if ttype next_token = NODE_SPECIFIER then Some (Inr nodes)
      else if ttype next_token = COMMENT then None
      else Some (Inl ParserError))"
  by pat_completeness auto
termination
  by (relation "measure (\<lambda>(nodes, toks). length toks)")
     (auto dest: InstructionStatement_shorter)

text \<open>
  \<open>ASTRoot.nodes\<close> is a dictionary: assigning to a key that is there keeps the
  key's place.
\<close>

fun dict_set :: "nat \<Rightarrow> 'v \<Rightarrow> (nat \<times> 'v) list \<Rightarrow> (nat \<times> 'v) list" where
  "dict_set k v [] = [(k, v)]"
| "dict_set k v ((k', v') # kvs) =
     (if k = k' then (k, v) # kvs else (k', v') # dict_set k v kvs)"

text \<open>
  The loop of \<open>MultiNodeParser.parse\<close>: after a node marker the node's statements
  are parsed from the tokens that follow, and the cursor is put back right
  behind the marker.
\<close>

fun MultiNodeParser ::
  "(nat \<times> ast_node list) list \<Rightarrow> token list
     \<Rightarrow> (error + (nat \<times> ast_node list) list) option" where
  "MultiNodeParser node_asts [] = Some (Inr node_asts)"
| "MultiNodeParser node_asts (next_token # rest) =
     (if ttype next_token = NODE_SPECIFIER then
        (case tvalue next_token of
           V_node i \<Rightarrow>
             (case SingleNodeASTParser [] rest of
                None \<Rightarrow> None
              | Some (Inl e) \<Rightarrow> Some (Inl e)
              | Some (Inr nodes) \<Rightarrow> MultiNodeParser (dict_set i nodes node_asts) rest)
         | _ \<Rightarrow> Some (Inl ParserError))
      else MultiNodeParser node_asts rest)"

definition parse :: "string \<Rightarrow> (error + (nat \<times> ast_node list) list) option" where
  "parse text =
     (case lex text of
        None \<Rightarrow> None
      | Some (Inl e) \<Rightarrow> Some (Inl e)
      | Some (Inr tokens) \<Rightarrow> MultiNodeParser [] (filter_token_stack tokens))"

section \<open>Building the machine (tis\_machine.py)\<close>

text \<open>
  \<open>{n_id: TISNode(n_id, node_height, node_width, ast=val) for ...}\<close>: the nodes are
  built in the order of the parsed program, and the first failure ends it.
\<close>

fun build_machine :: "nat \<Rightarrow> nat \<Rightarrow> (nat \<times> ast_node list) list \<Rightarrow> grid \<Rightarrow> error + grid" where
  "build_machine node_height node_width [] machine = Inr machine"
| "build_machine node_height node_width ((n_id, val) # kvs) machine =
     (case TISNode n_id node_height node_width (Some val) of
        Inl e \<Rightarrow> Inl e
      | Inr nd \<Rightarrow> build_machine node_height node_width kvs (machine(n_id \<mapsto> nd)))"

section \<open>Observing results\<close>

fun grid_after :: "step_result \<Rightarrow> grid" where
  "grid_after (Stepped g) = g"
| "grid_after (Raised _ g) = g"

definition final_grid :: "step_result option \<Rightarrow> grid" where
  "final_grid r = (case r of Some x \<Rightarrow> grid_after x | None \<Rightarrow> Map.empty)"

section \<open>Frame conditions\<close>

text \<open>
  \<open>frame R g0 g\<close>: the machines \<open>g0\<close> and \<open>g\<close> hold the same nodes, and every node
  of \<open>g\<close> is related by \<open>R\<close> to what it was in \<open>g0\<close>. The closure conditions list the
  field updates that a receive, a send, a register instruction, \<open>swt\<close> and \<open>step\<close>
  itself perform on the stepping node \<open>n\<close> and on its neighbours.
\<close>

definition frame :: "(nat \<Rightarrow> tis_node \<Rightarrow> tis_node \<Rightarrow> bool) \<Rightarrow> grid \<Rightarrow> grid \<Rightarrow> bool" where
  "frame R g0 g = (\<forall>k. rel_option (R k) (g0 k) (g k))"

definition recv_closed :: "nat \<Rightarrow> (nat \<Rightarrow> tis_node \<Rightarrow> tis_node \<Rightarrow> bool) \<Rightarrow> bool" where
  "recv_closed n R =
     ((\<forall>a b x. R n a b \<longrightarrow> R n a (b\<lparr>last_port := x\<rparr>))
    \<and> (\<forall>a b x. R n a b \<longrightarrow> R n a (b\<lparr>wait_port := x, state := WILL_BE_RUNNING\<rparr>))
    \<and> (\<forall>k a b. R k a b \<longrightarrow> R k a (b\<lparr>port_value := None\<rparr>)))"

definition send_closed :: "nat \<Rightarrow> (nat \<Rightarrow> tis_node \<Rightarrow> tis_node \<Rightarrow> bool) \<Rightarrow> bool" where
  "send_closed n R =
     ((\<forall>a b x. R n a b \<longrightarrow> R n a (b\<lparr>port_value := x, state := WILL_BE_RUNNING\<rparr>))
    \<and> (\<forall>k a b x. R k a b \<longrightarrow> wait_port b \<noteq> None \<longrightarrow> R k a (b\<lparr>sent_value := x\<rparr>)))"

definition reg_closed :: "nat \<Rightarrow> (nat \<Rightarrow> tis_node \<Rightarrow> tis_node \<Rightarrow> bool) \<Rightarrow> bool" where
  "reg_closed n R =
     ((\<forall>a b x. R n a b \<longrightarrow> R n a (b\<lparr>accs := (accs b)[register_cursor b := x]\<rparr>))
    \<and> (\<forall>a b x. R n a b \<longrightarrow> R n a (b\<lparr>baks := (baks b)[register_cursor b := x]\<rparr>))
    \<and> (\<forall>a b x. R n a b \<longrightarrow> R n a (b\<lparr>instruction_pointer := x\<rparr>)))"

definition cursor_closed :: "nat \<Rightarrow> (nat \<Rightarrow> tis_node \<Rightarrow> tis_node \<Rightarrow> bool) \<Rightarrow> bool" where
  "cursor_closed n R =
     (\<forall>a b x. R n a b \<longrightarrow> x < length (accs b) \<longrightarrow> R n a (b\<lparr>register_cursor := x\<rparr>))"

definition step_closed :: "nat \<Rightarrow> (nat \<Rightarrow> tis_node \<Rightarrow> tis_node \<Rightarrow> bool) \<Rightarrow> bool" where
  "step_closed n R =
     ((\<forall>a b. R n a b \<longrightarrow> R n a (b\<lparr>wait_port := None, sent_value := None, state := RUNNING\<rparr>))
    \<and> (\<forall>a b. R n a b \<longrightarrow> R n a (b\<lparr>port_value := None, state := RUNNING\<rparr>)))"

definition all_closed :: "nat \<Rightarrow> (nat \<Rightarrow> tis_node \<Rightarrow> tis_node \<Rightarrow> bool) \<Rightarrow> bool" where
  "all_closed n R =
     (recv_closed n R \<and> send_closed n R \<and> reg_closed n R \<and> cursor_closed n R
      \<and> step_closed n R)"

text \<open>The relations and predicates used for the individual properties.\<close>

definition keeps_wait :: "nat \<Rightarrow> tis_node \<Rightarrow> tis_node \<Rightarrow> bool" where
  "keeps_wait k a b = (wait_port b = wait_port a)"

definition idle :: "nat \<Rightarrow> grid \<Rightarrow> bool" where
  "idle n g = (\<exists>b. g n = Some b \<and> wait_port b = None)"

definition unsent :: "nat \<Rightarrow> grid \<Rightarrow> bool" where
  "unsent n g = (\<exists>b. g n = Some b \<and> port_value b = None)"

definition settled :: "nat \<Rightarrow> grid \<Rightarrow> bool" where
  "settled n g = (\<exists>b. g n = Some b \<and> (wait_port b = None \<or> port_value b = None))"

definition others_kept :: "nat \<Rightarrow> nat \<Rightarrow> tis_node \<Rightarrow> tis_node \<Rightarrow> bool" where
  "others_kept n k a b =
     (k \<noteq> n \<longrightarrow> wait_port b = wait_port a
               \<and> (port_value b = port_value a \<or> port_value b = None))"

definition at_most_one_pending :: "tis_node \<Rightarrow> bool" where
  "at_most_one_pending s = (wait_port s = None \<or> port_value s = None)"


definition untouched :: "nat \<Rightarrow> nat \<Rightarrow> tis_node \<Rightarrow> tis_node \<Rightarrow> bool" where
  "untouched n k a b =
     (k = n \<longrightarrow> wait_port a = None \<longrightarrow> port_value a = None \<longrightarrow> b = a)"

definition parked_on_last :: "tis_node \<Rightarrow> bool" where
  "parked_on_last s =
     (instruction_pointer s < length (ast s)
      \<and> (\<exists>dst. ast s ! instruction_pointer s
                  = NArgumentInstruction op_mov [PortLiteral LAST, dst])
      \<and> wait_port s = None \<and> port_value s = None \<and> last_port s = None)"


text \<open>
  A neighbour accepts a send in direction \<open>d\<close> when it exists, has code, and is
  parked on the mirrored port or on \<open>ANY\<close>. \<open>posted\<close> records a send attempt in the
  sender, \<open>delivered\<close> hands the value to the receiver.
\<close>

definition accepts :: "grid \<Rightarrow> nat \<Rightarrow> direction \<Rightarrow> bool" where
  "accepts g n d =
     (case directions (node_at g n) d of
        None \<Rightarrow> False
      | Some t \<Rightarrow>
          (case g t of
             None \<Rightarrow> False
           | Some target_node \<Rightarrow>
               wait_port target_node = Some ANY
               \<or> wait_port target_node = Some (Dir (mirror d))))"

definition posted :: "nat \<Rightarrow> (port \<times> int) option \<Rightarrow> grid \<Rightarrow> grid" where
  "posted n pv g = upd n (\<lambda>x. x\<lparr>port_value := pv, state := WILL_BE_RUNNING\<rparr>) g"

definition delivered :: "nat \<Rightarrow> direction \<Rightarrow> int \<Rightarrow> grid \<Rightarrow> grid" where
  "delivered t d v g = upd t (\<lambda>x. x\<lparr>sent_value := Some (mirror d, v)\<rparr>) g"

section \<open>Example machines\<close>

text \<open>
  Node 0 sends 7 down; node 5 below it relays what it reads from above to the
  node below it, which has no code.
\<close>

definition relay_machine :: grid where
  "relay_machine =
     [0 \<mapsto> fresh_node 0 4 5 [NArgumentInstruction op_mov [IntegerLiteral 7, PortLiteral (Dir DOWN)]],
      5 \<mapsto> fresh_node 5 4 5 [NArgumentInstruction op_mov [PortLiteral (Dir UP), PortLiteral (Dir DOWN)]]]"

text \<open>Node 6 of the 4 x 5 grid with its upper neighbour 1 and its left neighbour 5 parked.\<close>

definition any_machine :: grid where
  "any_machine =
     [6 \<mapsto> fresh_node 6 4 5
            [NArgumentInstruction op_mov [IntegerLiteral 42, PortLiteral ANY]],
      1 \<mapsto> (fresh_node 1 4 5
            [NArgumentInstruction op_mov [PortLiteral (Dir DOWN), RegisterLiteral ''ACC'']])
            \<lparr>wait_port := Some (Dir DOWN), state := WILL_BE_RUNNING\<rparr>,
      5 \<mapsto> (fresh_node 5 4 5
            [NArgumentInstruction op_mov [PortLiteral ANY, RegisterLiteral ''ACC'']])
            \<lparr>wait_port := Some ANY, state := WILL_BE_RUNNING\<rparr>]"

text \<open>
  The two-node scenario: as written, and with \<open>add 3\<close> in place of \<open>add 3, acc\<close>.
\<close>

definition nl :: string where
  "nl = [CHR 0x0A]"

definition scenario_source :: string where
  "scenario_source =
     ''@0'' @ nl @ ''mov 5, acc'' @ nl @ ''add 3, acc'' @ nl @ ''mov acc, down'' @ nl
     @ ''@5'' @ nl @ ''mov up, acc''"

definition scenario_source_one_operand :: string where
  "scenario_source_one_operand =
     ''@0'' @ nl @ ''mov 5, acc'' @ nl @ ''add 3'' @ nl @ ''mov acc, down'' @ nl
     @ ''@5'' @ nl @ ''mov up, acc''"

definition sender_program :: "ast_node list" where
  "sender_program =
     [NArgumentInstruction op_mov [IntegerLiteral 5, RegisterLiteral ''ACC''],
      NArgumentInstruction op_add [IntegerLiteral 3],
      NArgumentInstruction op_mov [RegisterLiteral ''ACC'', PortLiteral (Dir DOWN)]]"

definition receiver_program :: "ast_node list" where
  "receiver_program =
     [NArgumentInstruction op_mov [PortLiteral (Dir UP), RegisterLiteral ''ACC'']]"

definition scenario_machine :: grid where
  "scenario_machine =
     [0 \<mapsto> fresh_node 0 4 5 sender_program, 5 \<mapsto> fresh_node 5 4 5 receiver_program]"

text \<open>The machine after one, two and three ticks, and then after four and five.\<close>

definition scenario_after_1 :: grid where
  "scenario_after_1 =
     [0 \<mapsto> (fresh_node 0 4 5 sender_program)
             \<lparr>instruction_pointer := 1, accs := [5, 0, 0, 0, 0, 0, 0, 0]\<rparr>,
      5 \<mapsto> (fresh_node 5 4 5 receiver_program)
             \<lparr>wait_port := Some (Dir UP), state := WILL_BE_RUNNING\<rparr>]"

definition scenario_after_2 :: grid where
  "scenario_after_2 =
     [0 \<mapsto> (fresh_node 0 4 5 sender_program)
             \<lparr>instruction_pointer := 2, accs := [8, 0, 0, 0, 0, 0, 0, 0]\<rparr>,
      5 \<mapsto> (fresh_node 5 4 5 receiver_program)
             \<lparr>wait_port := Some (Dir UP), state := WILL_BE_RUNNING\<rparr>]"

definition scenario_after_3 :: grid where
  "scenario_after_3 =
     [0 \<mapsto> (fresh_node 0 4 5 sender_program)
             \<lparr>accs := [8, 0, 0, 0, 0, 0, 0, 0], state := WILL_BE_RUNNING\<rparr>,
      5 \<mapsto> (fresh_node 5 4 5 receiver_program)
             \<lparr>last_port := Some UP, accs := [8, 0, 0, 0, 0, 0, 0, 0]\<rparr>]"

definition scenario_after_4 :: grid where
  "scenario_after_4 =
     [0 \<mapsto> (fresh_node 0 4 5 sender_program)
             \<lparr>instruction_pointer := 1, accs := [5, 0, 0, 0, 0, 0, 0, 0],
               state := WILL_BE_RUNNING\<rparr>,
      5 \<mapsto> (fresh_node 5 4 5 receiver_program)
             \<lparr>wait_port := Some (Dir UP), last_port := Some UP,
               accs := [8, 0, 0, 0, 0, 0, 0, 0], state := WILL_BE_RUNNING\<rparr>]"

definition scenario_after_5 :: grid where
  "scenario_after_5 =
     [0 \<mapsto> (fresh_node 0 4 5 sender_program)
             \<lparr>instruction_pointer := 2, accs := [8, 0, 0, 0, 0, 0, 0, 0],
               state := WILL_BE_RUNNING\<rparr>,
      5 \<mapsto> (fresh_node 5 4 5 receiver_program)
             \<lparr>wait_port := Some (Dir UP), last_port := Some UP,
               accs := [8, 0, 0, 0, 0, 0, 0, 0], state := WILL_BE_RUNNING\<rparr>]"

section \<open>Frame lemmas\<close>

lemma frame_present: "frame R g0 g \<Longrightarrow> (g n \<noteq> None) = (g0 n \<noteq> None)"
  unfolding frame_def by (metis option.rel_distinct(1) option.rel_distinct(2) option.exhaust)

lemma frame_refl: "(\<And>k a. R k a a) \<Longrightarrow> frame R g g"
  by (simp add: frame_def option.rel_refl)

lemma frameD: "frame R g0 g \<Longrightarrow> g0 k = Some a \<Longrightarrow> \<exists>b. g k = Some b \<and> R k a b"
  unfolding frame_def by (erule_tac x=k in allE) (cases "g k"; simp)

lemma frame_some:
  assumes "frame R g0 g" and "g n = Some s" and "frame R g0 g'"
  shows "\<exists>c. g' n = Some c"
  using frame_present[OF assms(1), of n] frame_present[OF assms(3), of n] assms(2) by auto

lemma frame_upd:
  assumes "frame R g0 g" and "g n = Some b"
    and "\<And>a. g0 n = Some a \<Longrightarrow> R n a b \<Longrightarrow> R n a (h b)"
  shows "frame R g0 (upd n h g)"
  unfolding frame_def
proof
  fix k
  from assms(1) have k: "rel_option (R k) (g0 k) (g k)" by (simp add: frame_def)
  show "rel_option (R k) (g0 k) (upd n h g k)"
  proof (cases "k = n")
    case True
    with k assms(2) obtain a where a: "g0 n = Some a" "R n a b"
      by (cases "g0 n") auto
    with assms(3) True assms(2) show ?thesis by (simp add: upd_def node_at_def)
  next
    case False
    with k show ?thesis by (simp add: upd_def)
  qed
qed

lemma frame_upd_last:
  "frame R g0 g \<Longrightarrow> g n = Some b \<Longrightarrow> recv_closed n R
   \<Longrightarrow> frame R g0 (upd n (\<lambda>s. s\<lparr>last_port := x\<rparr>) g)"
  by (rule frame_upd) (auto simp: recv_closed_def)

lemma frame_upd_wait:
  "frame R g0 g \<Longrightarrow> g n = Some b \<Longrightarrow> recv_closed n R
   \<Longrightarrow> frame R g0 (upd n (\<lambda>s. s\<lparr>wait_port := x, state := WILL_BE_RUNNING\<rparr>) g)"
  by (rule frame_upd) (auto simp: recv_closed_def)

lemma frame_upd_port:
  "frame R g0 g \<Longrightarrow> g n = Some b \<Longrightarrow> send_closed n R
   \<Longrightarrow> frame R g0 (upd n (\<lambda>s. s\<lparr>port_value := x, state := WILL_BE_RUNNING\<rparr>) g)"
  by (rule frame_upd) (auto simp: send_closed_def)

lemma frame_upd_clear:
  "frame R g0 g \<Longrightarrow> g k = Some b \<Longrightarrow> recv_closed n R
   \<Longrightarrow> frame R g0 (upd k (\<lambda>s. s\<lparr>port_value := None\<rparr>) g)"
  by (rule frame_upd) (auto simp: recv_closed_def)

lemma frame_upd_sent:
  "frame R g0 g \<Longrightarrow> g k = Some b \<Longrightarrow> wait_port b \<noteq> None \<Longrightarrow> send_closed n R
   \<Longrightarrow> frame R g0 (upd k (\<lambda>s. s\<lparr>sent_value := x\<rparr>) g)"
  by (rule frame_upd) (auto simp: send_closed_def)

subsection \<open>Port transfers\<close>

lemma get_value_from_port_frame:
  assumes "frame R g0 g" and "g n = Some s" and "recv_closed n R"
  shows "frame R g0 (grid_of (get_value_from_port n p g))"
proof (cases "wait_port s")
  case None
  with assms show ?thesis
    by (auto simp: get_value_from_port_def Let_def node_at_def split: option.splits
        intro: frame_upd_wait)
next
  case (Some w)
  show ?thesis
  proof (cases "sent_value s")
    case None
    with Some assms show ?thesis
      by (simp add: get_value_from_port_def Let_def node_at_def)
  next
    case (Some dv)
    obtain d v where dv: "dv = (d, v)" by (cases dv)
    let ?g1 = "upd n (\<lambda>s. s\<lparr>last_port := Some d\<rparr>) g"
    have f1: "frame R g0 ?g1" using assms by (rule frame_upd_last)
    show ?thesis
    proof (cases "get_node_with_id ?g1 (directions (node_at ?g1 n) d)")
      case None
      with f1 Some dv \<open>wait_port s = Some w\<close> assms(2) show ?thesis
        by (simp add: get_value_from_port_def Let_def node_at_def)
    next
      case (Some ts)
      obtain t sender where ts: "ts = (t, sender)" by (cases ts)
      with Some have "?g1 t = Some sender"
        by (cases "directions (node_at ?g1 n) d") (auto split: option.splits)
      then have "frame R g0 (upd t (\<lambda>s. s\<lparr>port_value := None\<rparr>) ?g1)"
        using f1 assms(3) by (auto intro: frame_upd_clear)
      with Some ts dv \<open>sent_value s = Some dv\<close> \<open>wait_port s = Some w\<close> assms(2) show ?thesis
        by (simp add: get_value_from_port_def Let_def node_at_def)
    qed
  qed
qed

lemma send_to_direction_frame:
  assumes "frame R g0 g" and "g n = Some s" and "send_closed n R"
  shows "frame R g0 (snd (send_to_direction n d v g))"
proof -
  let ?g1 = "upd n (\<lambda>s. s\<lparr>port_value := Some (Dir d, v), state := WILL_BE_RUNNING\<rparr>) g"
  have f1: "frame R g0 ?g1" using assms by (rule frame_upd_port)
  show ?thesis
  proof (cases "directions (node_at ?g1 n) d")
    case None
    with f1 show ?thesis by (simp add: send_to_direction_def Let_def)
  next
    case (Some t)
    show ?thesis
    proof (cases "?g1 t")
      case None
      with Some f1 show ?thesis by (simp add: send_to_direction_def Let_def)
    next
      case (Some target_node)
      with f1 assms(3) \<open>directions (node_at ?g1 n) d = Some t\<close> show ?thesis
        by (auto simp: send_to_direction_def Let_def intro!: frame_upd_sent)
    qed
  qed
qed

lemma send_to_direction_present:
  assumes "g n = Some s"
  shows "\<exists>c. snd (send_to_direction n d v g) n = Some c"
  using assms
  by (auto simp: send_to_direction_def Let_def node_at_def upd_def split: option.splits)

lemma send_any_frame:
  assumes "frame R g0 g" and "g n = Some s" and "send_closed n R"
  shows "frame R g0 (snd (send_any n ds v g))"
  using assms
proof (induction ds arbitrary: g s)
  case Nil
  then show ?case by simp
next
  case (Cons d ds)
  have f: "frame R g0 (snd (send_to_direction n d v g))"
    using Cons.prems by (rule send_to_direction_frame)
  obtain c where c: "snd (send_to_direction n d v g) n = Some c"
    using send_to_direction_present[of g n s d v, OF Cons.prems(2)] by blast
  show ?case
  proof (cases "directions (node_at g n) d")
    case None
    with Cons show ?thesis by simp
  next
    case (Some t)
    obtain b g' where r: "send_to_direction n d v g = (b, g')" by (cases "send_to_direction n d v g")
    with f c have "frame R g0 g'" "g' n = Some c" by simp_all
    with Cons.IH[of g' c] Cons.prems(3) Some r show ?thesis by (cases b) simp_all
  qed
qed

lemma set_value_to_port_frame:
  assumes "frame R g0 g" and "g n = Some s" and "send_closed n R"
  shows "frame R g0 (snd (set_value_to_port n p v g))"
proof -
  let ?g1 = "upd n (\<lambda>s. s\<lparr>port_value := Some (p, v), state := WILL_BE_RUNNING\<rparr>) g"
  have f1: "frame R g0 ?g1" using assms by (rule frame_upd_port)
  have p1: "?g1 n = Some (s\<lparr>port_value := Some (p, v), state := WILL_BE_RUNNING\<rparr>)"
    using assms(2) by (simp add: upd_def node_at_def)
  show ?thesis
  proof (cases p)
    case (Dir d)
    with assms show ?thesis by (simp add: set_value_to_port_def send_to_direction_frame)
  next
    case ANY
    with send_any_frame[OF f1 p1 assms(3)] show ?thesis
      by (simp add: set_value_to_port_def Let_def)
  next
    case LAST
    with f1 send_to_direction_frame[OF f1 p1 assms(3)] show ?thesis
      by (simp add: set_value_to_port_def Let_def split: option.splits)
  next
    case NIL
    with f1 show ?thesis by (simp add: set_value_to_port_def Let_def)
  qed
qed

subsection \<open>Instructions\<close>

lemma acc_update_frame:
  assumes "frame R g0 g" and "g n = Some s" and "reg_closed n R"
  shows "frame R g0 (grid_of (acc_update n f g))"
  using assms
  by (auto simp: acc_update_def Let_def node_at_def reg_closed_def intro!: frame_upd)

lemma mov_store_frame:
  assumes "frame R g0 g" and "g n = Some s" and "send_closed n R" and "reg_closed n R"
  shows "frame R g0 (grid_of (mov_store n dst v g))"
proof (cases dst)
  case (PortLiteral p)
  with set_value_to_port_frame[OF assms(1,2,3), of p v] show ?thesis
    by (cases "set_value_to_port n p v g") (simp add: mov_store_def)
next
  case (RegisterLiteral r)
  with acc_update_frame[OF assms(1,2,4)] show ?thesis by (simp add: mov_store_def)
qed (use assms(1) in \<open>simp_all add: mov_store_def\<close>)

lemma port_operand_frame:
  assumes "frame R g0 g" and "g n = Some s" and "recv_closed n R"
    and "\<And>g' c v. frame R g0 g' \<Longrightarrow> g' n = Some c \<Longrightarrow> frame R g0 (grid_of (k v g'))"
  shows "frame R g0 (grid_of (case get_value_from_port n p g of
            Raise e g' \<Rightarrow> Raise e g'
          | Return None g' \<Rightarrow> Return b g'
          | Return (Some v) g' \<Rightarrow> k v g'))"
proof -
  let ?r = "get_value_from_port n p g"
  have fr: "frame R g0 (grid_of ?r)" using assms(1,2,3) by (rule get_value_from_port_frame)
  obtain c where c: "grid_of ?r n = Some c" using frame_some[OF assms(1,2) fr] by blast
  show ?thesis
    using fr c assms(4) by (cases ?r) (auto split: option.splits)
qed

lemma port_operand_frame':
  assumes "frame R g0 g" and "g n = Some s" and "recv_closed n R"
    and "\<And>g' c v. frame R g0 g' \<Longrightarrow> g' n = Some c \<Longrightarrow> frame R g0 (grid_of (k v g'))"
  shows "frame R g0 (grid_of (case get_value_from_port n p g of
            Raise e g' \<Rightarrow> Raise e g'
          | Return None g' \<Rightarrow> Raise e' g'
          | Return (Some v) g' \<Rightarrow> k v g'))"
proof -
  let ?r = "get_value_from_port n p g"
  have fr: "frame R g0 (grid_of ?r)" using assms(1,2,3) by (rule get_value_from_port_frame)
  obtain c where c: "grid_of ?r n = Some c" using frame_some[OF assms(1,2) fr] by blast
  show ?thesis
    using fr c assms(4) by (cases ?r) (auto split: option.splits)
qed

lemma instr_mov_frame:
  assumes "frame R g0 g" and "g n = Some s" and "recv_closed n R" and "send_closed n R"
    and "reg_closed n R"
  shows "frame R g0 (grid_of (instr_mov n args g))"
proof (cases "length args \<noteq> 2")
  case True
  with assms(1) show ?thesis by (simp add: instr_mov_def)
next
  case False
  note ms = mov_store_frame[OF assms(1,2,4,5)]
  show ?thesis
  proof (cases "args ! 0")
    case (PortLiteral p)
    let ?r = "get_value_from_port n p g"
    have fr: "frame R g0 (grid_of ?r)" using assms(1,2,3) by (rule get_value_from_port_frame)
    obtain c where c: "grid_of ?r n = Some c" using frame_some[OF assms(1,2) fr] by blast
    show ?thesis
    proof (cases ?r)
      case (Return x g')
      with fr c mov_store_frame[of R g0 g' n c, OF _ _ assms(4,5)] False PortLiteral show ?thesis
        by (simp add: instr_mov_def Let_def split: option.splits)
    next
      case (Raise e g')
      with fr False PortLiteral show ?thesis by (simp add: instr_mov_def Let_def)
    qed
  qed (use False ms assms(1) in \<open>simp_all add: instr_mov_def Let_def split: ast_node.splits\<close>)
qed

lemma instr_add_frame:
  assumes "frame R g0 g" and "g n = Some s" and "recv_closed n R" and "reg_closed n R"
  shows "frame R g0 (grid_of (instr_add n args g))"
proof (cases args)
  case Nil
  with assms(1) show ?thesis by (simp add: instr_add_def)
next
  case (Cons a as)
  show ?thesis
  proof (cases a)
    case (PortLiteral p)
    with Cons port_operand_frame[OF assms(1,2,3), where k="\<lambda>v. acc_update n (\<lambda>a. a + v)" and p=p and b=False]
      acc_update_frame[OF _ _ assms(4)]
    show ?thesis by (simp add: instr_add_def)
  qed (use Cons assms(1) acc_update_frame[OF assms(1,2,4)] in \<open>simp_all add: instr_add_def\<close>)
qed

lemma instr_sub_frame:
  assumes "frame R g0 g" and "g n = Some s" and "recv_closed n R" and "reg_closed n R"
  shows "frame R g0 (grid_of (instr_sub n args g))"
proof (cases args)
  case Nil
  with assms(1) show ?thesis by (simp add: instr_sub_def)
next
  case (Cons a as)
  show ?thesis
  proof (cases a)
    case (PortLiteral p)
    with Cons port_operand_frame[OF assms(1,2,3), where k="\<lambda>v. acc_update n (\<lambda>a. a - v)" and p=p and b=False]
      acc_update_frame[OF _ _ assms(4)]
    show ?thesis by (simp add: instr_sub_def)
  qed (use Cons assms(1) acc_update_frame[OF assms(1,2,4)] in \<open>simp_all add: instr_sub_def\<close>)
qed

lemma instr_sav_frame:
  assumes "frame R g0 g" and "g n = Some s" and "reg_closed n R"
  shows "frame R g0 (grid_of (instr_sav n args g))"
  using assms
  by (auto simp: instr_sav_def Let_def node_at_def reg_closed_def intro!: frame_upd)

lemma swp_as_two_updates:
  "b\<lparr>accs := (accs b)[register_cursor b := x], baks := (baks b)[register_cursor b := y]\<rparr>
   = (b\<lparr>accs := (accs b)[register_cursor b := x]\<rparr>)
       \<lparr>baks := (baks (b\<lparr>accs := (accs b)[register_cursor b := x]\<rparr>))
                [register_cursor (b\<lparr>accs := (accs b)[register_cursor b := x]\<rparr>) := y]\<rparr>"
  by simp

lemma instr_swp_frame:
  assumes "frame R g0 g" and "g n = Some s" and "reg_closed n R"
  shows "frame R g0 (grid_of (instr_swp n args g))"
proof (cases "register_cursor s < length (accs s) \<and> register_cursor s < length (baks s)")
  case True
  have "\<And>a b x y. R n a b \<Longrightarrow>
      R n a (b\<lparr>accs := (accs b)[register_cursor b := x], baks := (baks b)[register_cursor b := y]\<rparr>)"
    using assms(3) unfolding reg_closed_def by (subst swp_as_two_updates) blast
  with True assms(1,2) show ?thesis
    by (auto simp: instr_swp_def Let_def node_at_def intro!: frame_upd)
next
  case False
  with assms(1,2) show ?thesis by (auto simp: instr_swp_def Let_def node_at_def)
qed

lemma swt_switch_frame:
  assumes "frame R g0 g" and "g n = Some s" and "cursor_closed n R"
  shows "frame R g0 (grid_of (swt_switch n v g))"
  using assms
  by (auto simp: swt_switch_def Let_def node_at_def cursor_closed_def intro!: frame_upd)

lemma instr_swt_frame:
  assumes "frame R g0 g" and "g n = Some s" and "recv_closed n R" and "cursor_closed n R"
  shows "frame R g0 (grid_of (instr_swt n args g))"
proof (cases args)
  case Nil
  with assms(1) show ?thesis by (simp add: instr_swt_def)
next
  case (Cons a as)
  show ?thesis
  proof (cases a)
    case (PortLiteral p)
    with Cons port_operand_frame'[OF assms(1,2,3), where k="\<lambda>v. swt_switch n v" and p=p and e'=TypeError]
      swt_switch_frame[OF _ _ assms(4)]
    show ?thesis by (simp add: instr_swt_def)
  qed (use Cons assms(1) swt_switch_frame[OF assms(1,2,4)] in
        \<open>simp_all add: instr_swt_def Let_def\<close>)
qed

lemma instr_jmp_frame:
  assumes "frame R g0 g" and "g n = Some s" and "reg_closed n R"
  shows "frame R g0 (grid_of (instr_jmp n args g))"
  using assms
  by (auto simp: instr_jmp_def Let_def node_at_def reg_closed_def
      split: list.splits option.splits intro!: frame_upd)

lemma cond_jump_frame:
  assumes "frame R g0 g" and "g n = Some s" and "reg_closed n R"
  shows "frame R g0 (grid_of (cond_jump test n args g))"
  using assms instr_jmp_frame[OF assms]
  by (auto simp: cond_jump_def Let_def split: list.splits)

lemma jro_jump_frame:
  assumes "frame R g0 g" and "g n = Some s" and "reg_closed n R"
  shows "frame R g0 (grid_of (jro_jump n v g))"
  using assms
  by (auto simp: jro_jump_def Let_def node_at_def reg_closed_def
      split: option.splits intro!: frame_upd)

lemma instr_jro_frame:
  assumes "frame R g0 g" and "g n = Some s" and "recv_closed n R" and "reg_closed n R"
  shows "frame R g0 (grid_of (instr_jro n args g))"
proof (cases args)
  case Nil
  with assms(1) show ?thesis by (simp add: instr_jro_def)
next
  case (Cons a as)
  show ?thesis
  proof (cases a)
    case (PortLiteral p)
    with Cons port_operand_frame[OF assms(1,2,3), where k="\<lambda>v. jro_jump n v" and p=p and b=False]
      jro_jump_frame[OF _ _ assms(4)]
    show ?thesis by (simp add: instr_jro_def)
  qed (use Cons assms(1) jro_jump_frame[OF assms(1,2,4)] in
        \<open>simp_all add: instr_jro_def Let_def\<close>)
qed

lemma do_instr_frame:
  assumes "frame R g0 g" and "g n = Some s" and "recv_closed n R" and "send_closed n R"
    and "reg_closed n R"
    and "cursor_closed n R \<or> (\<forall>args. node \<noteq> NArgumentInstruction op_swt args)"
  shows "frame R g0 (grid_of (do_instr n node g))"
proof (cases node)
  case (NArgumentInstruction opc args)
  show ?thesis
  proof (cases opc)
    case op_swt
    with NArgumentInstruction assms(6) have "cursor_closed n R" by simp
    with instr_swt_frame[OF assms(1,2,3)] NArgumentInstruction op_swt show ?thesis
      by (simp add: do_instr_def)
  qed (use NArgumentInstruction assms(1) instr_mov_frame[OF assms(1,2,3,4,5)]
        instr_add_frame[OF assms(1,2,3,5)] instr_sub_frame[OF assms(1,2,3,5)]
        instr_sav_frame[OF assms(1,2,5)] instr_swp_frame[OF assms(1,2,5)]
        acc_update_frame[OF assms(1,2,5)] cond_jump_frame[OF assms(1,2,5)]
        instr_jmp_frame[OF assms(1,2,5)] instr_jro_frame[OF assms(1,2,3,5)] in
        \<open>simp_all add: do_instr_def instr_neg_def instr_nop_def instr_jez_def instr_jnz_def
            instr_jgz_def instr_jlz_def\<close>)
qed (use assms(1) in \<open>simp_all add: do_instr_def\<close>)

subsection \<open>Steps\<close>


lemma step_off_label:
  "\<not> on_label n g \<Longrightarrow> statement_frames < frames \<Longrightarrow> step frames n g = Some (step_once n g)"
  by (cases frames) auto

lemma step_at_once:
  "returns_at_once n g \<Longrightarrow> 0 < frames \<Longrightarrow> step frames n g = Some (step_once n g)"
  by (cases frames) (auto simp: returns_at_once_def on_label_def Let_def)

lemma step_no_frames: "step 0 n g = Some (Raised RecursionError g)"
  by simp

lemma step_label_last_frame: "on_label n g \<Longrightarrow> step (Suc 0) n g = Some (Raised RecursionError g)"
  by simp

lemma incr_instr_pointer_frame:
  assumes "frame R g0 g" and "g n = Some s" and "reg_closed n R"
  shows "frame R g0 (incr_instr_pointer n g)"
  using assms by (auto simp: incr_instr_pointer_def reg_closed_def intro!: frame_upd)

lemma step_once_frame:
  assumes "frame R g0 g" and "g n = Some s" and "recv_closed n R" and "send_closed n R"
    and "reg_closed n R" and "cursor_closed n R" and "step_closed n R"
  shows "frame R g0 (grid_after (step_once n g))"
proof -
  let ?cur = "ast s ! instruction_pointer s"
  let ?r = "do_instr n ?cur g"
  have fr: "frame R g0 (grid_of ?r)"
    using assms(1-5) by (rule do_instr_frame) (simp add: assms(6))
  obtain c where c: "grid_of ?r n = Some c" using frame_some[OF assms(1,2) fr] by blast
  have w: "frame R g0 (upd n (\<lambda>s. s\<lparr>wait_port := None, sent_value := None, state := RUNNING\<rparr>)
              (grid_of ?r))"
    using fr c assms(7) by (auto simp: step_closed_def intro!: frame_upd)
  have p: "frame R g0 (upd n (\<lambda>s. s\<lparr>port_value := None, state := RUNNING\<rparr>) (grid_of ?r))"
    using fr c assms(7) by (auto simp: step_closed_def intro!: frame_upd)
  have wi: "frame R g0 (incr_instr_pointer n
              (upd n (\<lambda>s. s\<lparr>wait_port := None, sent_value := None, state := RUNNING\<rparr>)
              (grid_of ?r)))"
    using w c assms(5) by (auto simp: upd_def intro!: incr_instr_pointer_frame)
  have pi: "frame R g0 (incr_instr_pointer n
              (upd n (\<lambda>s. s\<lparr>port_value := None, state := RUNNING\<rparr>) (grid_of ?r)))"
    using p c assms(5) by (auto simp: upd_def intro!: incr_instr_pointer_frame)
  have i: "frame R g0 (incr_instr_pointer n (grid_of ?r))"
    using fr c assms(5) by (rule incr_instr_pointer_frame)
  show ?thesis
    using assms(1,2) fr wi pi i
    by (cases ?r)
       (auto simp: step_once_def step_waiting_def step_sending_def step_instruction_def
          node_at_def Let_def split: bool.splits)
qed

lemma step_frame:
  assumes "step frames n g = Some r" and "frame R g0 g" and "g n = Some s" and "all_closed n R"
  shows "frame R g0 (grid_after r)"
  using assms(1,2,3)
proof (induction frames arbitrary: g s r)
  case 0
  then show ?case by auto
next
  case (Suc frames)
  note fr0 = Suc.prems(2) and gs = Suc.prems(3)
  show ?case
  proof (cases "on_label n g")
    case True
    show ?thesis
    proof (cases "frames = 0")
      case True
      with \<open>on_label n g\<close> Suc.prems(1) fr0 show ?thesis by auto
    next
      case False
      have f: "frame R g0 (incr_instr_pointer n g)"
        using fr0 gs assms(4) by (auto simp: all_closed_def intro: incr_instr_pointer_frame)
      obtain c where c: "incr_instr_pointer n g n = Some c"
        using frame_some[OF fr0 gs f] by blast
      have "step frames n (incr_instr_pointer n g) = Some r"
        using Suc.prems(1) True False by simp
      from Suc.IH[OF this f c] show ?thesis .
    qed
  next
    case False
    with Suc.prems(1) have "r = step_once n g" by (auto split: if_splits)
    with step_once_frame[OF fr0 gs] assms(4) show ?thesis by (simp add: all_closed_def)
  qed
qed

lemma step_keeps_nodes:
  assumes "step frames j g = Some r" and "g j = Some t"
  shows "(grid_after r k \<noteq> None) = (g k \<noteq> None)"
proof -
  have "all_closed j (\<lambda>_ _ _. True)"
    by (simp add: all_closed_def recv_closed_def send_closed_def reg_closed_def
      cursor_closed_def step_closed_def)
  moreover have "frame (\<lambda>_ _ _. True) g g" by (rule frame_refl) simp
  ultimately have "frame (\<lambda>_ _ _. True) g (grid_after r)"
    using step_frame[OF assms(1) _ assms(2)] by blast
  then show ?thesis by (rule frame_present)
qed

section \<open>Register arithmetic\<close>

text \<open>
  C7. For every value \<open>v\<close> held by the current accumulator, executing \<open>add acc\<close>
  leaves \<open>2 * v\<close> there and executing \<open>sub acc\<close> leaves \<open>0\<close>; the instruction
  completes and nothing else in the machine changes.
\<close>

theorem add_acc_doubles_sub_acc_clears:
  assumes "g n = Some s" and "register_cursor s < length (accs s)"
  shows "do_instr n (NArgumentInstruction op_add [RegisterLiteral r]) g
           = Return True (g(n \<mapsto> s\<lparr>accs := (accs s)
                 [register_cursor s := 2 * (accs s ! register_cursor s)]\<rparr>))
       \<and> do_instr n (NArgumentInstruction op_sub [RegisterLiteral r]) g
           = Return True (g(n \<mapsto> s\<lparr>accs := (accs s)[register_cursor s := 0]\<rparr>))"
  using assms
  by (simp add: do_instr_def instr_add_def instr_sub_def acc_update_def upd_def
      node_at_def Let_def mult.commute)

theorem add_acc_doubles_sub_acc_clears_witness:
  "grid_of (do_instr 0 (NArgumentInstruction op_add [RegisterLiteral ''ACC''])
       [0 \<mapsto> (fresh_node 0 4 5 [])\<lparr>accs := [0, 0, 7, 0, 0, 0, 0, 0], register_cursor := 2\<rparr>]) 0
     = Some ((fresh_node 0 4 5 [])\<lparr>accs := [0, 0, 14, 0, 0, 0, 0, 0], register_cursor := 2\<rparr>)
   \<and> grid_of (do_instr 0 (NArgumentInstruction op_sub [RegisterLiteral ''ACC''])
       [0 \<mapsto> (fresh_node 0 4 5 [])\<lparr>accs := [0, 0, 7, 0, 0, 0, 0, 0], register_cursor := 2\<rparr>]) 0
     = Some ((fresh_node 0 4 5 [])\<lparr>accs := [0, 0, 0, 0, 0, 0, 0, 0], register_cursor := 2\<rparr>)"
  using add_acc_doubles_sub_acc_clears
    [of "[0 \<mapsto> (fresh_node 0 4 5 [])\<lparr>accs := [0, 0, 7, 0, 0, 0, 0, 0], register_cursor := 2\<rparr>]"
        0 "(fresh_node 0 4 5 [])\<lparr>accs := [0, 0, 7, 0, 0, 0, 0, 0], register_cursor := 2\<rparr>"
        "''ACC''"]
  by (simp add: fresh_node_def)

section \<open>Switching the register pair\<close>










text \<open>
  C4. The program \<open>swt up\<close> passes validation. On its first step the read from
  \<open>UP\<close> parks the node (\<open>wait_port\<close> is set) and returns no value; \<open>instr_swt\<close>
  then compares that missing value with the number of registers, and the step
  ends in \<open>TypeError\<close> instead of returning with the instruction incomplete. This
  is so whenever the interpreter has room for the calls of the statement.
\<close>

theorem swt_port_raises_type_error:
  assumes "statement_frames < frames"
  shows "TISNode 0 4 5 (Some [NArgumentInstruction op_swt [PortLiteral (Dir UP)]])
     = Inr (fresh_node 0 4 5 [NArgumentInstruction op_swt [PortLiteral (Dir UP)]])
   \<and> step frames 0 [0 \<mapsto> fresh_node 0 4 5 [NArgumentInstruction op_swt [PortLiteral (Dir UP)]]]
     = Some (Raised TypeError
         [0 \<mapsto> (fresh_node 0 4 5 [NArgumentInstruction op_swt [PortLiteral (Dir UP)]])
                 \<lparr>wait_port := Some (Dir UP), state := WILL_BE_RUNNING\<rparr>])"
  using assms
  by (simp add: TISNode_def Let_def fresh_node_def make_label_table_def value_types_def
      instr_arg_num_check_def instr_arg_type_check_def
      step_off_label on_label_def node_at_def step_once_def step_instruction_def
      do_instr_def instr_swt_def get_value_from_port_def upd_def)

theorem swt_port_raises_type_error_witness:
  "step 1000 0 [0 \<mapsto> fresh_node 0 4 5 [NArgumentInstruction op_swt [PortLiteral (Dir UP)]]]
     = Some (Raised TypeError
         [0 \<mapsto> (fresh_node 0 4 5 [NArgumentInstruction op_swt [PortLiteral (Dir UP)]])
                 \<lparr>wait_port := Some (Dir UP), state := WILL_BE_RUNNING\<rparr>])"
  using swt_port_raises_type_error [of 1000, THEN conjunct2]
  by (simp add: statement_frames_def)

section \<open>Parked nodes\<close>

text \<open>
  C10. A node that is parked on a receive (\<open>wait_port\<close> set) and has been handed
  nothing (\<open>sent_value\<close> empty) is not changed by a call to \<open>step\<close>: the whole
  machine, and so the node's registers, cursor, instruction pointer, \<open>wait_port\<close>,
  \<open>port_value\<close>, \<open>sent_value\<close> and \<open>last_port\<close>, is the same afterwards. The call
  returns normally when the instruction pointer is inside the statement list. It
  makes no further call, so one free frame for \<open>step\<close> itself is enough.
\<close>

theorem blocked_receive_tick_is_noop:
  assumes "g n = Some s" and "wait_port s \<noteq> None" and "sent_value s = None"
    and "0 < frames"
  shows "step frames n g = Some (if instruction_pointer s < length (ast s) then Stepped g
                          else Raised IndexError g)"
proof -
  have "returns_at_once n g"
    using assms by (simp add: returns_at_once_def node_at_def)
  from step_at_once[OF this assms(4)] assms(1,2,3) show ?thesis
    by (auto simp: step_once_def step_waiting_def node_at_def Let_def)
qed

theorem blocked_receive_tick_is_noop_witness:
  "step 1 5 [5 \<mapsto> (fresh_node 5 4 5
        [NArgumentInstruction op_mov [PortLiteral (Dir UP), RegisterLiteral ''ACC'']])
          \<lparr>wait_port := Some (Dir UP)\<rparr>]
   = Some (Stepped [5 \<mapsto> (fresh_node 5 4 5
        [NArgumentInstruction op_mov [PortLiteral (Dir UP), RegisterLiteral ''ACC'']])
          \<lparr>wait_port := Some (Dir UP)\<rparr>])"
  using blocked_receive_tick_is_noop
    [of "[5 \<mapsto> (fresh_node 5 4 5
        [NArgumentInstruction op_mov [PortLiteral (Dir UP), RegisterLiteral ''ACC'']])
          \<lparr>wait_port := Some (Dir UP)\<rparr>]" 5
        "(fresh_node 5 4 5
        [NArgumentInstruction op_mov [PortLiteral (Dir UP), RegisterLiteral ''ACC'']])
          \<lparr>wait_port := Some (Dir UP)\<rparr>" 1]
  by (simp add: fresh_node_def)

lemma untouched_closed: "j \<noteq> n \<Longrightarrow> all_closed j (untouched n)"
  by (auto simp: all_closed_def recv_closed_def send_closed_def reg_closed_def
      cursor_closed_def step_closed_def untouched_def)

lemma step_leaves_idle_neighbour:
  assumes "step frames j g = Some r" and "g j = Some t" and "j \<noteq> n"
    and "g n = Some s" and "wait_port s = None" and "port_value s = None"
  shows "grid_after r n = Some s"
proof -
  have "frame (untouched n) g g" by (rule frame_refl) (simp add: untouched_def)
  from step_frame[OF assms(1) this assms(2) untouched_closed[OF assms(3)]]
  have "frame (untouched n) g (grid_after r)" .
  from frameD[OF this assms(4)] assms(5,6) show ?thesis by (simp add: untouched_def)
qed

lemma parked_step:
  assumes "g n = Some s" and "parked_on_last s" and "statement_frames < frames"
  shows "step frames n g = Some (Stepped g)"
proof -
  have "\<not> on_label n g"
    using assms(1,2) by (auto simp: parked_on_last_def on_label_def node_at_def Let_def)
  from step_off_label[OF this assms(3)] assms(1,2) show ?thesis
    by (auto simp: parked_on_last_def step_once_def step_instruction_def
        do_instr_def instr_mov_def get_value_from_port_def node_at_def Let_def)
qed

lemma parked_step_result:
  assumes "g n = Some s" and "parked_on_last s" and "step frames n g = Some x"
  shows "grid_after x = g"
proof (cases frames)
  case 0
  with assms(3) show ?thesis by auto
next
  case (Suc f)
  have nl: "\<not> on_label n g"
    using assms(1,2) by (auto simp: parked_on_last_def on_label_def node_at_def Let_def)
  have so: "step_once n g = Stepped g"
    using assms(1,2)
    by (auto simp: parked_on_last_def step_once_def step_instruction_def
        do_instr_def instr_mov_def get_value_from_port_def node_at_def Let_def)
  from assms(3) Suc nl have "x = step_once n g" by (auto split: if_splits)
  with so show ?thesis by simp
qed

lemma tick_parked:
  assumes "parked_on_last s"
  shows "g n = Some s \<Longrightarrow> \<forall>j \<in> set ids. g j \<noteq> None \<Longrightarrow> tick frames ids g = Some r
         \<Longrightarrow> grid_after r n = Some s \<and> (\<forall>k. (grid_after r k \<noteq> None) = (g k \<noteq> None))"
proof (induction ids arbitrary: g)
  case Nil
  then show ?case by auto
next
  case (Cons j ids)
  from Cons.prems(2) obtain t where t: "g j = Some t" by auto
  from Cons.prems(3) obtain x where x: "step frames j g = Some x"
    by (cases "step frames j g") auto
  have n: "grid_after x n = Some s"
  proof (cases "j = n")
    case True
    with x parked_step_result[where g=g and n=n and s=s and x=x and frames=frames, OF Cons.prems(1) assms]
      Cons.prems(1) show ?thesis by auto
  next
    case False
    with x t Cons.prems(1) assms show ?thesis
      by (auto simp: parked_on_last_def intro: step_leaves_idle_neighbour)
  qed
  note k = step_keeps_nodes[where g=g and j=j and frames=frames, OF x t]
  show ?case
  proof (cases x)
    case (Raised e g')
    with x Cons.prems(3) have "r = x" by simp
    with n k show ?thesis by blast
  next
    case (Stepped g')
    with x Cons.prems(3) have "tick frames ids g' = Some r" by simp
    moreover from Stepped n have "g' n = Some s" by simp
    moreover from Stepped k Cons.prems(2) have "\<forall>j \<in> set ids. g' j \<noteq> None" by auto
    ultimately have "grid_after r n = Some s \<and> (\<forall>k. (grid_after r k \<noteq> None) = (g' k \<noteq> None))"
      by (rule Cons.IH[rotated 2])
    with Stepped k show ?thesis by simp
  qed
qed

lemma run_parked:
  assumes "parked_on_last s"
  shows "g n = Some s \<Longrightarrow> \<forall>j \<in> set ids. g j \<noteq> None \<Longrightarrow> run frames m ids g = Some r
         \<Longrightarrow> grid_after r n = Some s"
proof (induction m arbitrary: g)
  case 0
  then show ?case by auto
next
  case (Suc m)
  from Suc.prems(3) obtain x where x: "tick frames ids g = Some x"
    by (cases "tick frames ids g") auto
  note tp = tick_parked[where g=g and n=n and s=s and frames=frames, OF assms Suc.prems(1,2) x]
  show ?case
  proof (cases x)
    case (Raised e g')
    with x Suc.prems(3) have "r = x" by simp
    with tp show ?thesis by blast
  next
    case (Stepped g')
    with x Suc.prems(3) have "run frames m ids g' = Some r" by simp
    moreover from Stepped tp have "g' n = Some s" by simp
    moreover from Stepped tp Suc.prems(2) have "\<forall>j \<in> set ids. g' j \<noteq> None" by auto
    ultimately show ?thesis by (rule Suc.IH[rotated 2])
  qed
qed

text \<open>
  C9. A running node that stands on \<open>mov last, dst\<close> while no transfer has set
  its \<open>last_port\<close> stays there. Any number \<open>m\<close> of calls to its own \<open>step\<close>, made
  with room for the calls of the statement, return
  normally and leave the whole machine as it was. And whatever the other nodes
  do: after \<open>m\<close> ticks of any list of nodes of the machine, if the run comes back,
  this node is exactly as it was, with its accumulators and instruction pointer
  unchanged and still not waiting on any port, so that no neighbour can hand it a
  value.
\<close>

theorem mov_last_blocks_forever:
  assumes "g n = Some s"
    and "instruction_pointer s < length (ast s)"
    and "ast s ! instruction_pointer s = NArgumentInstruction op_mov [PortLiteral LAST, dst]"
    and "wait_port s = None" and "port_value s = None" and "last_port s = None"
    and "statement_frames < frames"
  shows "run frames m [n] g = Some (Stepped g)
       \<and> (\<forall>ids r f. (\<forall>j \<in> set ids. g j \<noteq> None) \<and> run f m ids g = Some r
            \<longrightarrow> grid_after r n = Some s)"
proof -
  have p: "parked_on_last s" using assms(1-6) by (simp add: parked_on_last_def)
  have "run frames m [n] g = Some (Stepped g)"
    using assms(1,7) p by (induction m) (simp_all add: parked_step)
  moreover have "\<forall>ids r f. (\<forall>j \<in> set ids. g j \<noteq> None) \<and> run f m ids g = Some r
            \<longrightarrow> grid_after r n = Some s"
    using run_parked[where g=g and n=n and s=s and m=m, OF p assms(1)] by blast
  ultimately show ?thesis by blast
qed

theorem mov_last_blocks_forever_witness:
  "run 1000 1000 [0] [0 \<mapsto> fresh_node 0 4 5
        [NArgumentInstruction op_mov [PortLiteral LAST, RegisterLiteral ''ACC'']]]
   = Some (Stepped [0 \<mapsto> fresh_node 0 4 5
        [NArgumentInstruction op_mov [PortLiteral LAST, RegisterLiteral ''ACC'']]])"
  using mov_last_blocks_forever
    [of "[0 \<mapsto> fresh_node 0 4 5
        [NArgumentInstruction op_mov [PortLiteral LAST, RegisterLiteral ''ACC'']]]" 0
        "fresh_node 0 4 5
        [NArgumentInstruction op_mov [PortLiteral LAST, RegisterLiteral ''ACC'']]"
        "RegisterLiteral ''ACC''" 1000 1000, THEN conjunct1]
  by (simp add: fresh_node_def statement_frames_def)

section \<open>Pending sends and receives\<close>

lemma keeps_wait_closed:
  "send_closed n keeps_wait" "reg_closed n keeps_wait" "cursor_closed n keeps_wait"
  by (simp_all add: send_closed_def reg_closed_def cursor_closed_def keeps_wait_def)

lemma keeps_wait_refl: "frame keeps_wait g g"
  by (rule frame_refl) (simp add: keeps_wait_def)

lemma keeps_wait_idle: "frame keeps_wait g g' \<Longrightarrow> idle n g \<Longrightarrow> idle n g'"
  unfolding idle_def by (auto dest!: frameD simp: keeps_wait_def)

lemma get_value_fresh:
  assumes "g n = Some s" and "wait_port s = None" and "port_value s = None"
  shows "(\<exists>v. get_value_from_port n p g = Return (Some v) g)
       \<or> (\<exists>g'. get_value_from_port n p g = Return None g' \<and> unsent n g')"
  using assms
  by (auto simp: get_value_from_port_def Let_def node_at_def unsent_def upd_def
      split: option.splits)

lemma idle_via_frame:
  assumes "idle n g" and "\<And>s. g n = Some s \<Longrightarrow> frame keeps_wait g g'"
  shows "idle n g'"
  using assms keeps_wait_idle by (auto simp: idle_def)

lemmas kw_rules = keeps_wait_refl keeps_wait_closed

lemma idle_acc_update: "idle n g \<Longrightarrow> idle n (grid_of (acc_update n f g))"
  by (erule idle_via_frame) (rule acc_update_frame; (assumption | rule kw_rules))

lemma idle_mov_store: "idle n g \<Longrightarrow> idle n (grid_of (mov_store n dst v g))"
  by (erule idle_via_frame) (rule mov_store_frame; (assumption | rule kw_rules))

lemma idle_swt_switch: "idle n g \<Longrightarrow> idle n (grid_of (swt_switch n v g))"
  by (erule idle_via_frame) (rule swt_switch_frame; (assumption | rule kw_rules))

lemma idle_jro_jump: "idle n g \<Longrightarrow> idle n (grid_of (jro_jump n v g))"
  by (erule idle_via_frame) (rule jro_jump_frame; (assumption | rule kw_rules))

lemma idle_instr_jmp: "idle n g \<Longrightarrow> idle n (grid_of (instr_jmp n args g))"
  by (erule idle_via_frame) (rule instr_jmp_frame; (assumption | rule kw_rules))

lemma idle_cond_jump: "idle n g \<Longrightarrow> idle n (grid_of (cond_jump t n args g))"
  by (erule idle_via_frame) (rule cond_jump_frame; (assumption | rule kw_rules))

lemma idle_instr_sav: "idle n g \<Longrightarrow> idle n (grid_of (instr_sav n args g))"
  by (erule idle_via_frame) (rule instr_sav_frame; (assumption | rule kw_rules))

lemma idle_instr_swp: "idle n g \<Longrightarrow> idle n (grid_of (instr_swp n args g))"
  by (erule idle_via_frame) (rule instr_swp_frame; (assumption | rule kw_rules))

lemmas idle_rules = idle_acc_update idle_mov_store idle_swt_switch idle_jro_jump
  idle_instr_jmp idle_cond_jump idle_instr_sav idle_instr_swp

lemma settledI: "idle n g \<Longrightarrow> settled n g" "unsent n g \<Longrightarrow> settled n g"
  by (auto simp: settled_def idle_def unsent_def)

lemma port_operand_settled:
  assumes "g n = Some s" and "wait_port s = None" and "port_value s = None"
    and "\<And>v. idle n (grid_of (k v g))" and "\<And>g'. grid_of (r g') = g'"
  shows "settled n (grid_of (case get_value_from_port n p g of
            Raise e g' \<Rightarrow> Raise e g'
          | Return None g' \<Rightarrow> r g'
          | Return (Some v) g' \<Rightarrow> k v g'))"
  using get_value_fresh[where g=g and n=n and p=p, OF assms(1,2,3)] assms(4,5)
  by (auto intro: settledI)

lemma do_instr_settled:
  assumes "g n = Some s" and "wait_port s = None" and "port_value s = None"
  shows "settled n (grid_of (do_instr n node g))"
proof -
  have i: "idle n g" using assms by (simp add: idle_def)
  note po = port_operand_settled[where g=g and n=n, OF assms]
  show ?thesis
  proof (cases node)
    case (NArgumentInstruction opc args)
    show ?thesis
    proof (cases opc)
      case op_mov
      show ?thesis
      proof (cases "length args = 2")
        case True
        show ?thesis
        proof (cases "args ! 0")
          case (PortLiteral p)
          with po[where k="\<lambda>v. mov_store n (args ! Suc 0) v" and r="Return False" and p=p] i True op_mov
            NArgumentInstruction
          show ?thesis by (simp add: do_instr_def instr_mov_def idle_rules)
        qed (use i True op_mov NArgumentInstruction in
              \<open>auto simp: do_instr_def instr_mov_def Let_def idle_rules
                 split: ast_node.splits intro!: settledI(1)\<close>)
      next
        case False
        with i op_mov NArgumentInstruction show ?thesis
          by (auto simp: do_instr_def instr_mov_def intro!: settledI(1))
      qed
    next
      case op_add
      show ?thesis
      proof (cases args)
        case (Cons a as)
        show ?thesis
        proof (cases a)
          case (PortLiteral p)
          with po[where k="\<lambda>v. acc_update n (\<lambda>a. a + v)" and r="Return False" and p=p] i Cons op_add
            NArgumentInstruction
          show ?thesis by (simp add: do_instr_def instr_add_def idle_rules)
        qed (use i Cons op_add NArgumentInstruction in
              \<open>auto simp: do_instr_def instr_add_def idle_rules intro!: settledI(1)\<close>)
      qed (use i op_add NArgumentInstruction in
              \<open>auto simp: do_instr_def instr_add_def intro!: settledI(1)\<close>)
    next
      case op_sub
      show ?thesis
      proof (cases args)
        case (Cons a as)
        show ?thesis
        proof (cases a)
          case (PortLiteral p)
          with po[where k="\<lambda>v. acc_update n (\<lambda>a. a - v)" and r="Return False" and p=p] i Cons op_sub
            NArgumentInstruction
          show ?thesis by (simp add: do_instr_def instr_sub_def idle_rules)
        qed (use i Cons op_sub NArgumentInstruction in
              \<open>auto simp: do_instr_def instr_sub_def idle_rules intro!: settledI(1)\<close>)
      qed (use i op_sub NArgumentInstruction in
              \<open>auto simp: do_instr_def instr_sub_def intro!: settledI(1)\<close>)
    next
      case op_swt
      show ?thesis
      proof (cases args)
        case (Cons a as)
        show ?thesis
        proof (cases a)
          case (PortLiteral p)
          with po[where k="\<lambda>v. swt_switch n v" and r="Raise TypeError" and p=p] i Cons op_swt
            NArgumentInstruction
          show ?thesis by (simp add: do_instr_def instr_swt_def idle_rules)
        qed (use i Cons op_swt NArgumentInstruction in
              \<open>auto simp: do_instr_def instr_swt_def Let_def idle_rules intro!: settledI(1)\<close>)
      qed (use i op_swt NArgumentInstruction in
              \<open>auto simp: do_instr_def instr_swt_def intro!: settledI(1)\<close>)
    next
      case op_jro
      show ?thesis
      proof (cases args)
        case (Cons a as)
        show ?thesis
        proof (cases a)
          case (PortLiteral p)
          with po[where k="\<lambda>v. jro_jump n v" and r="Return False" and p=p] i Cons op_jro
            NArgumentInstruction
          show ?thesis by (simp add: do_instr_def instr_jro_def idle_rules)
        qed (use i Cons op_jro NArgumentInstruction in
              \<open>auto simp: do_instr_def instr_jro_def Let_def idle_rules intro!: settledI(1)\<close>)
      qed (use i op_jro NArgumentInstruction in
              \<open>auto simp: do_instr_def instr_jro_def intro!: settledI(1)\<close>)
    qed (use i NArgumentInstruction in
          \<open>auto simp: do_instr_def instr_neg_def instr_nop_def instr_jez_def instr_jnz_def
             instr_jgz_def instr_jlz_def idle_rules intro!: settledI(1)\<close>)
  qed (use i in \<open>auto simp: do_instr_def intro!: settledI(1)\<close>)
qed

lemma others_kept_closed: "all_closed n (others_kept n)"
  by (auto simp: all_closed_def recv_closed_def send_closed_def reg_closed_def
      cursor_closed_def step_closed_def others_kept_def)

lemma settled_incr: "settled n g \<Longrightarrow> settled n (incr_instr_pointer n g)"
  by (auto simp: settled_def incr_instr_pointer_def upd_def node_at_def)

lemma step_once_settled:
  assumes "g n = Some s" and "wait_port s = None" and "port_value s = None"
  shows "settled n (grid_after (step_once n g))"
proof -
  have g: "settled n g" using assms by (simp add: settled_def)
  have d: "settled n (grid_of (do_instr n (ast s ! instruction_pointer s) g))"
    using assms by (rule do_instr_settled)
  show ?thesis
    using assms g d settled_incr[of n "grid_of (do_instr n (ast s ! instruction_pointer s) g)"]
    by (cases "do_instr n (ast s ! instruction_pointer s) g")
       (auto simp: step_once_def step_instruction_def node_at_def Let_def split: bool.splits)
qed

lemma step_settled:
  assumes "step frames n g = Some r" and "g n = Some s"
    and "wait_port s = None" and "port_value s = None"
  shows "settled n (grid_after r)"
  using assms
proof (induction frames arbitrary: g s)
  case 0
  then show ?case by (auto simp: settled_def)
next
  case (Suc frames)
  have here: "settled n g" using Suc.prems(2,3) by (simp add: settled_def)
  show ?case
  proof (cases "on_label n g")
    case True
    show ?thesis
    proof (cases "frames = 0")
      case True
      with \<open>on_label n g\<close> Suc.prems(1) here show ?thesis by auto
    next
      case False
      with True Suc.prems(1) have b: "step frames n (incr_instr_pointer n g) = Some r" by simp
      let ?s' = "s\<lparr>instruction_pointer :=
                    (if is_same_int (instruction_pointer s + 1) (ast_len s) then 0
                     else instruction_pointer s + 1)\<rparr>"
      have g': "incr_instr_pointer n g n = Some ?s'"
        using Suc.prems(2) by (simp add: incr_instr_pointer_def upd_def node_at_def)
      from Suc.IH[OF b g'] Suc.prems(3,4) show ?thesis by simp
    qed
  next
    case False
    with Suc.prems(1) have "r = step_once n g" by (auto split: if_splits)
    with step_once_settled[where g=g and n=n and s=s, OF Suc.prems(2,3,4)] show ?thesis by simp
  qed
qed

text \<open>
  C2, as the code has it. A step of node \<open>n\<close> that starts with neither
  \<open>wait_port\<close> nor \<open>port_value\<close> set ends with at most one of them set in that
  node; and a step of node \<open>n\<close> leaves every other node's \<open>wait_port\<close> as it was
  and its \<open>port_value\<close> as it was or cleared, whatever that node held, so a node
  that had at most one of them set still has. This holds for every way the step
  ends, an exception included. The property is not an invariant of all
  reachable states: a parked \<open>mov\<close> from a port to a port that resumes and cannot
  deliver keeps \<open>wait_port\<close> and sets \<open>port_value\<close>.
\<close>

theorem step_pending_ports:
  assumes "g n = Some s" and "step frames n g = Some r"
  shows "(wait_port s = None \<and> port_value s = None
            \<longrightarrow> (\<exists>b. grid_after r n = Some b \<and> at_most_one_pending b))
       \<and> (\<forall>k a. k \<noteq> n \<and> g k = Some a
            \<longrightarrow> (\<exists>b. grid_after r k = Some b \<and> wait_port b = wait_port a
                     \<and> (port_value b = port_value a \<or> port_value b = None)))
       \<and> (\<forall>k a. k \<noteq> n \<and> g k = Some a \<and> at_most_one_pending a
            \<longrightarrow> (\<exists>b. grid_after r k = Some b \<and> at_most_one_pending b))"
proof -
  have "frame (others_kept n) g g" by (rule frame_refl) (simp add: others_kept_def)
  from step_frame[OF assms(2) this assms(1) others_kept_closed]
  have fr: "frame (others_kept n) g (grid_after r)" .
  show ?thesis
  proof (intro conjI allI impI)
    assume "wait_port s = None \<and> port_value s = None"
    with step_settled[OF assms(2,1)] show "\<exists>b. grid_after r n = Some b \<and> at_most_one_pending b"
      by (simp add: settled_def at_most_one_pending_def)
  next
    fix k a assume h: "k \<noteq> n \<and> g k = Some a"
    from frameD[OF fr, of k a] h
    show "\<exists>b. grid_after r k = Some b \<and> wait_port b = wait_port a
                     \<and> (port_value b = port_value a \<or> port_value b = None)"
      by (auto simp: others_kept_def)
  next
    fix k a assume h: "k \<noteq> n \<and> g k = Some a \<and> at_most_one_pending a"
    from frameD[OF fr, of k a] h
    show "\<exists>b. grid_after r k = Some b \<and> at_most_one_pending b"
      by (auto simp: others_kept_def at_most_one_pending_def)
  qed
qed

theorem step_pending_ports_witness:
  "\<exists>r. step 1000 0 relay_machine = Some r
      \<and> (\<exists>b. grid_after r 0 = Some b \<and> at_most_one_pending b)
      \<and> (\<exists>b. grid_after r 5 = Some b \<and> wait_port b = None \<and> port_value b = None)
      \<and> (\<exists>b. grid_after r 5 = Some b \<and> at_most_one_pending b)"
proof -
  let ?s = "fresh_node 0 4 5
        [NArgumentInstruction op_mov [IntegerLiteral 7, PortLiteral (Dir DOWN)]]"
  let ?t = "fresh_node 5 4 5
        [NArgumentInstruction op_mov [PortLiteral (Dir UP), PortLiteral (Dir DOWN)]]"
  have s: "relay_machine 0 = Some ?s" by (simp add: relay_machine_def)
  have t: "relay_machine 5 = Some ?t" by (simp add: relay_machine_def)
  have "\<not> on_label 0 relay_machine"
    by (simp add: on_label_def node_at_def relay_machine_def fresh_node_def)
  then obtain r where r: "step 1000 0 relay_machine = Some r"
    by (simp add: step_off_label statement_frames_def)
  have idle: "wait_port ?s = None \<and> port_value ?s = None" by (simp add: fresh_node_def)
  have other: "5 \<noteq> (0::nat) \<and> relay_machine 5 = Some ?t" using t by simp
  have other1: "5 \<noteq> (0::nat) \<and> relay_machine 5 = Some ?t \<and> at_most_one_pending ?t"
    using t by (simp add: at_most_one_pending_def fresh_node_def)
  have none: "wait_port ?t = None" "port_value ?t = None" by (simp_all add: fresh_node_def)
  note p = step_pending_ports[of relay_machine 0 ?s 1000 r, OF s r]
  from p idle have "\<exists>b. grid_after r 0 = Some b \<and> at_most_one_pending b" by blast
  moreover from p other
  have "\<exists>b. grid_after r 5 = Some b \<and> wait_port b = wait_port ?t
            \<and> (port_value b = port_value ?t \<or> port_value b = None)" by blast
  then have "\<exists>b. grid_after r 5 = Some b \<and> wait_port b = None \<and> port_value b = None"
    unfolding none by blast
  moreover from p other1 have "\<exists>b. grid_after r 5 = Some b \<and> at_most_one_pending b" by blast
  ultimately show ?thesis using r by blast
qed

text \<open>
  C2 as stated fails on the relay machine, both of whose programs pass
  validation: after two ticks node 5 has read 7 from above, cannot hand it to the
  node below, and holds \<open>wait_port\<close> and \<open>port_value\<close> at once.
\<close>

theorem relay_holds_both_counterexample:
  "TISNode 5 4 5 (Some [NArgumentInstruction op_mov [PortLiteral (Dir UP), PortLiteral (Dir DOWN)]])
     = Inr (fresh_node 5 4 5
         [NArgumentInstruction op_mov [PortLiteral (Dir UP), PortLiteral (Dir DOWN)]])
   \<and> wait_port (node_at (final_grid (run 1000 2 [0, 5] relay_machine)) 5) = Some (Dir UP)
   \<and> port_value (node_at (final_grid (run 1000 2 [0, 5] relay_machine)) 5) = Some (Dir DOWN, 7)"
proof -
  have a: "TISNode 5 4 5
      (Some [NArgumentInstruction op_mov [PortLiteral (Dir UP), PortLiteral (Dir DOWN)]])
     = Inr (fresh_node 5 4 5
         [NArgumentInstruction op_mov [PortLiteral (Dir UP), PortLiteral (Dir DOWN)]])"
    by (simp add: TISNode_def Let_def make_label_table_def value_types_def
        instr_arg_num_check_def instr_arg_type_check_def)
  have b: "wait_port (node_at (final_grid (run 1000 2 [0, 5] relay_machine)) 5) = Some (Dir UP)
     \<and> port_value (node_at (final_grid (run 1000 2 [0, 5] relay_machine)) 5) = Some (Dir DOWN, 7)"
    by code_simp
  show ?thesis by (rule conjI[OF a b])
qed

section \<open>Labels\<close>
















section \<open>Sending to ANY\<close>

lemma posted_self: "g n = Some s
  \<Longrightarrow> posted n pv g n = Some (s\<lparr>port_value := pv, state := WILL_BE_RUNNING\<rparr>)"
  by (simp add: posted_def upd_def node_at_def)

lemma send_to_direction_posted:
  assumes "g n = Some s"
  shows "send_to_direction n d v (posted n pv g) =
     (if accepts g n d
      then (True, delivered (the (directions s d)) d v (posted n (Some (Dir d, v)) g))
      else (False, posted n (Some (Dir d, v)) g))"
  using assms
  by (auto simp: send_to_direction_def accepts_def posted_def delivered_def upd_def
      node_at_def Let_def split: option.splits)

lemma send_any_posted:
  assumes "g n = Some s"
  shows "case find (accepts g n) ds of
           None \<Rightarrow> \<exists>pv'. send_any n ds v (posted n pv g) = (False, posted n pv' g)
         | Some d \<Rightarrow> \<exists>t. directions s d = Some t \<and> send_any n ds v (posted n pv g)
               = (True, delivered t d v (posted n (Some (Dir d, v)) g))"
proof (induction ds arbitrary: pv)
  case Nil
  show ?case by auto
next
  case (Cons d ds)
  have dn: "directions (node_at (posted n pv g) n) d = directions s d"
    using assms by (simp add: posted_self node_at_def)
  show ?case
  proof (cases "directions s d")
    case None
    then have "\<not> accepts g n d" using assms by (simp add: accepts_def node_at_def)
    with None dn Cons.IH[of pv] show ?thesis by (auto split: option.splits)
  next
    case (Some t)
    show ?thesis
    proof (cases "accepts g n d")
      case True
      with Some dn send_to_direction_posted[where g=g and n=n and s=s and d=d and v=v and pv=pv, OF assms] show ?thesis
        by (auto split: option.splits)
    next
      case False
      with Some dn send_to_direction_posted[where g=g and n=n and s=s and d=d and v=v and pv=pv, OF assms]
        Cons.IH[of "Some (Dir d, v)"]
      show ?thesis by (auto split: option.splits)
    qed
  qed
qed

text \<open>
  C8. A send to \<open>ANY\<close> goes to the first direction of \<open>UP, LEFT, RIGHT, DOWN\<close> whose
  neighbour accepts: the call returns \<open>True\<close>, that neighbour gets the value under
  the mirrored port name, and the sender records the send under that direction.
  If no neighbour accepts, the call returns \<open>False\<close> and only the sender's
  \<open>port_value\<close> and \<open>state\<close> change. In particular, when the upper and the left
  neighbour both accept, the upper one gets the value and the left one is
  unchanged.
\<close>

theorem any_send_priority:
  assumes "g n = Some s"
  shows "(\<forall>d. find (accepts g n) order = Some d \<longrightarrow>
            (\<exists>t. directions s d = Some t
               \<and> set_value_to_port n ANY v g
                   = (True, delivered t d v (posted n (Some (Dir d, v)) g))))
       \<and> (find (accepts g n) order = None \<longrightarrow>
            (\<exists>pv. set_value_to_port n ANY v g = (False, posted n pv g)))
       \<and> (\<forall>u l. directions s UP = Some u \<and> directions s LEFT = Some l
               \<and> accepts g n UP \<and> accepts g n LEFT \<and> l \<noteq> u \<and> l \<noteq> n \<longrightarrow>
            fst (set_value_to_port n ANY v g)
            \<and> map_option sent_value (snd (set_value_to_port n ANY v g) u)
                 = Some (Some (DOWN, v))
            \<and> snd (set_value_to_port n ANY v g) l = g l)"
proof -
  have e: "set_value_to_port n ANY v g = send_any n order v (posted n (Some (ANY, v)) g)"
    by (simp add: set_value_to_port_def posted_def)
  note sa = send_any_posted[where g=g and n=n and s=s and ds=order and v=v and pv="Some (ANY, v)", OF assms]
  have first: "\<exists>t. directions s d = Some t
               \<and> set_value_to_port n ANY v g
                   = (True, delivered t d v (posted n (Some (Dir d, v)) g))"
    if "find (accepts g n) order = Some d" for d
    using sa e that by simp
  have none: "\<exists>pv. set_value_to_port n ANY v g = (False, posted n pv g)"
    if "find (accepts g n) order = None"
    using sa e that by simp
  have up: "fst (set_value_to_port n ANY v g)
            \<and> map_option sent_value (snd (set_value_to_port n ANY v g) u)
                 = Some (Some (DOWN, v))
            \<and> snd (set_value_to_port n ANY v g) l = g l"
    if h: "directions s UP = Some u \<and> directions s LEFT = Some l
               \<and> accepts g n UP \<and> accepts g n LEFT \<and> l \<noteq> u \<and> l \<noteq> n" for u l
  proof -
    from h have "find (accepts g n) order = Some UP" by (simp add: order_def)
    from first[OF this] h have r: "set_value_to_port n ANY v g
        = (True, delivered u UP v (posted n (Some (Dir UP, v)) g))" by simp
    from h assms obtain tn where "g u = Some tn"
      by (auto simp: accepts_def node_at_def split: option.splits)
    with r h assms show ?thesis
      by (auto simp: delivered_def posted_def upd_def node_at_def)
  qed
  from first none up show ?thesis by blast
qed

theorem any_send_priority_witness:
  "fst (set_value_to_port 6 ANY 42 any_machine)
   \<and> map_option sent_value (snd (set_value_to_port 6 ANY 42 any_machine) 1)
        = Some (Some (DOWN, 42))
   \<and> snd (set_value_to_port 6 ANY 42 any_machine) 5 = any_machine 5"
proof -
  let ?s = "fresh_node 6 4 5
            [NArgumentInstruction op_mov [IntegerLiteral 42, PortLiteral ANY]]"
  have s: "any_machine 6 = Some ?s" by (simp add: any_machine_def)
  have h: "directions ?s UP = Some 1 \<and> directions ?s LEFT = Some 5
           \<and> accepts any_machine 6 UP \<and> accepts any_machine 6 LEFT
           \<and> (5::nat) \<noteq> 1 \<and> (5::nat) \<noteq> 6"
    by (simp add: accepts_def node_at_def any_machine_def fresh_node_def make_directions_def)
  from any_send_priority[of any_machine 6 ?s 42, OF s] h show ?thesis by blast
qed

section \<open>Evaluating the front end\<close>

text \<open>
  A literal definition looks at no more of the text than its own length, so the
  text is lowered only that far.
\<close>

lemma match_def_prefix:
  "match_def token_type match_text =
     (case matcher token_type of
        Literal p \<Rightarrow> if lower (take (length p) match_text) = p then Some p else None
      | Regex r \<Rightarrow> r match_text)"
  by (simp add: match_def_def startswith_def lower_def take_map split: pattern.splits)

lemmas front_eval =
  parse_def lex_def lex_gen.simps get_first_token_def defs_def try_def_def match_def_prefix
  instruction_def_def port_def_def outranks_label_ref_def startswith_def lower_def
  lower_char_def ord_def is_digit_def is_nonzero_digit_def is_symbol_char_def
  is_space_char_def re_separator_def re_label_def re_label_ref_def re_whitespace_def
  int_of_string_def nat_of_digits_def digit_value_def filter_token_stack_def
  InstructionStatement_def is_operand_token_def nl_def Let_def

section \<open>The lexer's choice of token\<close>

text \<open>
  C5. In \<open>jmp upper\<close> the label-reference rule matches the five characters
  \<open>upper\<close> at position 4, and the port rule \<open>up\<close> matches two. \<open>get_first_token\<close>
  returns the port token of length 2: the label reference is dropped although
  it is strictly longer. A program that jumps to a label of that name does not
  parse.
\<close>

theorem longer_label_ref_is_dropped:
  "name (defs ! 27) = LABEL_REF
   \<and> match_def (defs ! 27) (drop 4 ''jmp upper'') = Some ''upper''
   \<and> get_first_token ''jmp upper'' 4
       = Some \<lparr>ttype = PORT, tvalue = V_port (Dir UP), slice_start = 4, slice_stop = 6\<rparr>
   \<and> parse (''@0'' @ nl @ ''upper: mov 1, acc'' @ nl @ ''jmp upper'') = Some (Inl ParserError)"
proof -
  have n: "name (defs ! 27) = LABEL_REF"
    by (simp add: defs_def)
  have m: "match_def (defs ! 27) (drop 4 ''jmp upper'') = Some ''upper''"
    by (simp add: defs_def match_def_def re_label_ref_def is_symbol_char_def ord_def)
  have t: "get_first_token ''jmp upper'' 4
       = Some \<lparr>ttype = PORT, tvalue = V_port (Dir UP), slice_start = 4, slice_stop = 6\<rparr>"
    by (simp add: front_eval)
  have p: "parse (''@0'' @ nl @ ''upper: mov 1, acc'' @ nl @ ''jmp upper'') = Some (Inl ParserError)"
    by (simp add: front_eval)
  show ?thesis
    by (intro conjI) (rule n, rule m, rule t, rule p)
qed

section \<open>The two-node scenario\<close>

lemma replicate_8: "replicate 8 x = [x, x, x, x, x, x, x, x]"
  by (simp add: eval_nat_numeral)

lemma sender_program_simps:
  "length sender_program = 3"
  "sender_program ! 0 = NArgumentInstruction op_mov [IntegerLiteral 5, RegisterLiteral ''ACC'']"
  "sender_program ! Suc 0 = NArgumentInstruction op_add [IntegerLiteral 3]"
  "sender_program ! 2 = NArgumentInstruction op_mov [RegisterLiteral ''ACC'', PortLiteral (Dir DOWN)]"
  by (simp_all add: sender_program_def eval_nat_numeral)

lemma receiver_program_simps:
  "length receiver_program = 1"
  "receiver_program ! 0 = NArgumentInstruction op_mov [PortLiteral (Dir UP), RegisterLiteral ''ACC'']"
  by (simp_all add: receiver_program_def)

lemma scenario_directions:
  "make_directions 0 4 5 DOWN = Some 5" "make_directions 5 4 5 UP = Some 0"
  by (simp_all add: make_directions_def)

lemmas scenario_eval =
  step_off_label on_label_def step_once_def step_waiting_def step_sending_def
  step_instruction_def do_instr_def instr_mov_def instr_add_def mov_store_def acc_update_def
  get_value_from_port_def set_value_to_port_def send_to_direction_def
  incr_instr_pointer_def is_same_int_def upd_def node_at_def Let_def fresh_node_def
  replicate_8 sender_program_simps receiver_program_simps scenario_directions

lemma scenario_tick_1:
  "statement_frames < frames \<Longrightarrow> tick frames [0, 5] scenario_machine = Some (Stepped scenario_after_1)"
  by (simp add: scenario_machine_def scenario_after_1_def scenario_eval; auto simp: fun_eq_iff numeral_2_eq_2)

lemma scenario_tick_2:
  "statement_frames < frames \<Longrightarrow> tick frames [0, 5] scenario_after_1 = Some (Stepped scenario_after_2)"
  by (simp add: scenario_after_1_def scenario_after_2_def scenario_eval; auto simp: fun_eq_iff numeral_2_eq_2)

lemma scenario_tick_3:
  "statement_frames < frames \<Longrightarrow> tick frames [0, 5] scenario_after_2 = Some (Stepped scenario_after_3)"
  by (simp add: scenario_after_2_def scenario_after_3_def scenario_eval; auto simp: fun_eq_iff numeral_2_eq_2)

lemma scenario_tick_4:
  "statement_frames < frames \<Longrightarrow> tick frames [0, 5] scenario_after_3 = Some (Stepped scenario_after_4)"
  by (simp add: scenario_after_3_def scenario_after_4_def scenario_eval; auto simp: fun_eq_iff numeral_2_eq_2)

lemma scenario_tick_5:
  "statement_frames < frames \<Longrightarrow> tick frames [0, 5] scenario_after_4 = Some (Stepped scenario_after_5)"
  by (simp add: scenario_after_4_def scenario_after_5_def scenario_eval; auto simp: fun_eq_iff numeral_2_eq_2)

lemma scenario_tick_6:
  "statement_frames < frames \<Longrightarrow> tick frames [0, 5] scenario_after_5 = Some (Stepped scenario_after_3)"
  by (simp add: scenario_after_5_def scenario_after_3_def scenario_eval; auto simp: fun_eq_iff numeral_2_eq_2)

lemma run_Suc_tick:
  "tick frames ids g = Some (Stepped g') \<Longrightarrow> run frames (Suc m) ids g = run frames m ids g'"
  by simp

lemma scenario_run_2:
  assumes f: "statement_frames < frames"
  shows "run frames (Suc (Suc 0)) [0, 5] scenario_machine = Some (Stepped scenario_after_2)"
  by (simp only: run_Suc_tick[OF scenario_tick_1[OF f]] run_Suc_tick[OF scenario_tick_2[OF f]]
      run.simps(1))

lemma scenario_run_3:
  assumes f: "statement_frames < frames"
  shows "run frames (Suc (Suc (Suc 0))) [0, 5] scenario_machine
           = Some (Stepped scenario_after_3)"
  by (simp only: run_Suc_tick[OF scenario_tick_1[OF f]] run_Suc_tick[OF scenario_tick_2[OF f]]
      run_Suc_tick[OF scenario_tick_3[OF f]] run.simps(1))

lemma scenario_period:
  assumes f: "statement_frames < frames"
  shows "run frames (3 * k) [0, 5] scenario_after_3 = Some (Stepped scenario_after_3)"
proof (induction k)
  case 0
  show ?case by simp
next
  case (Suc k)
  have e: "3 * Suc k = Suc (Suc (Suc (3 * k)))"
    by simp
  show ?case
    unfolding e
    by (simp only: run_Suc_tick[OF scenario_tick_4[OF f]] run_Suc_tick[OF scenario_tick_5[OF f]]
        run_Suc_tick[OF scenario_tick_6[OF f]] Suc.IH)
qed

text \<open>
  C1, as the code has it: the scenario with \<open>add 3\<close>, the one-operand form that
  the validator admits. The source parses into the two programs, both nodes are
  built, and the driver steps node 0 and then node 5 in every tick. After two
  ticks node 0 has completed \<open>mov 5, acc\<close> and \<open>add 3\<close>: its accumulator is 8 and it
  stands on its third instruction, while node 5 is parked on \<open>UP\<close>. In the third
  tick node 0's \<open>mov acc, down\<close> hands 8 to node 5, which completes
  \<open>mov up, acc\<close> in the same tick: its accumulator is 8, and both nodes are
  running again at the start of their programs. From there the machine returns
  to that state every three ticks, so neither node is blocked forever. The
  ticks are as stated whenever the driver calls \<open>step\<close> with room on the
  interpreter's stack for the calls of a statement.
\<close>

theorem scenario_with_one_operand_add:
  assumes f: "statement_frames < frames"
  shows "parse scenario_source_one_operand = Some (Inr [(0, sender_program), (5, receiver_program)])
   \<and> build_machine 4 5 [(0, sender_program), (5, receiver_program)] Map.empty
       = Inr scenario_machine
   \<and> run frames 2 [0, 5] scenario_machine = Some (Stepped scenario_after_2)
   \<and> accs (node_at scenario_after_2 0) ! 0 = 8
   \<and> instruction_pointer (node_at scenario_after_2 0) = 2
   \<and> wait_port (node_at scenario_after_2 5) = Some (Dir UP)
   \<and> run frames 3 [0, 5] scenario_machine = Some (Stepped scenario_after_3)
   \<and> accs (node_at scenario_after_3 5) ! 0 = 8
   \<and> wait_port (node_at scenario_after_3 0) = None
   \<and> port_value (node_at scenario_after_3 0) = None
   \<and> wait_port (node_at scenario_after_3 5) = None
   \<and> port_value (node_at scenario_after_3 5) = None
   \<and> instruction_pointer (node_at scenario_after_3 0) = 0
   \<and> instruction_pointer (node_at scenario_after_3 5) = 0
   \<and> (\<forall>k. run frames (3 * k) [0, 5] scenario_after_3 = Some (Stepped scenario_after_3))"
proof -
  have p: "parse scenario_source_one_operand
             = Some (Inr [(0, sender_program), (5, receiver_program)])"
    by (simp add: scenario_source_one_operand_def sender_program_def receiver_program_def
        front_eval)
  have b: "build_machine 4 5 [(0, sender_program), (5, receiver_program)] Map.empty
       = Inr scenario_machine"
    by (simp add: TISNode_def Let_def scenario_machine_def sender_program_def
        receiver_program_def make_label_table_def value_types_def instr_arg_num_check_def
        instr_arg_type_check_def)
  have r2: "run frames 2 [0, 5] scenario_machine = Some (Stepped scenario_after_2)"
    unfolding numeral_2_eq_2 by (rule scenario_run_2[OF f])
  have r3: "run frames 3 [0, 5] scenario_machine = Some (Stepped scenario_after_3)"
    unfolding numeral_3_eq_3 by (rule scenario_run_3[OF f])
  have o2: "accs (node_at scenario_after_2 0) ! 0 = 8
     \<and> instruction_pointer (node_at scenario_after_2 0) = 2
     \<and> wait_port (node_at scenario_after_2 5) = Some (Dir UP)"
    by (simp add: scenario_after_2_def node_at_def)
  have o3: "accs (node_at scenario_after_3 5) ! 0 = 8
     \<and> wait_port (node_at scenario_after_3 0) = None
     \<and> port_value (node_at scenario_after_3 0) = None
     \<and> wait_port (node_at scenario_after_3 5) = None
     \<and> port_value (node_at scenario_after_3 5) = None
     \<and> instruction_pointer (node_at scenario_after_3 0) = 0
     \<and> instruction_pointer (node_at scenario_after_3 5) = 0"
    by (simp add: scenario_after_3_def node_at_def fresh_node_def)
  from p b r2 r3 o2 o3 scenario_period[OF f] show ?thesis
    by (simp only: simp_thms)
qed

theorem scenario_with_one_operand_add_witness:
  "run 1000 2 [0, 5] scenario_machine = Some (Stepped scenario_after_2)
   \<and> run 1000 3 [0, 5] scenario_machine = Some (Stepped scenario_after_3)
   \<and> accs (node_at scenario_after_2 0) ! 0 = 8
   \<and> accs (node_at scenario_after_3 5) ! 0 = 8
   \<and> run 1000 300 [0, 5] scenario_after_3 = Some (Stepped scenario_after_3)"
proof -
  have f: "statement_frames < 1000" by (simp add: statement_frames_def)
  note t = scenario_with_one_operand_add[OF f]
  have e: "(300::nat) = 3 * 100" by simp
  from t have "run 1000 (3 * 100) [0, 5] scenario_after_3 = Some (Stepped scenario_after_3)"
    by blast
  with t show ?thesis unfolding e by blast
qed

text \<open>
  C1 as stated fails before the first tick: \<open>add 3, acc\<close> parses into an \<open>add\<close>
  with two operands, \<open>validate_node\<close> rejects it when node 0 is built, and no
  machine exists.
\<close>

theorem scenario_as_written_counterexample:
  "parse scenario_source
     = Some (Inr [(0, [NArgumentInstruction op_mov [IntegerLiteral 5, RegisterLiteral ''ACC''],
                       NArgumentInstruction op_add [IntegerLiteral 3, RegisterLiteral ''ACC''],
                       NArgumentInstruction op_mov
                         [RegisterLiteral ''ACC'', PortLiteral (Dir DOWN)]]),
                  (5, receiver_program)])
   \<and> build_machine 4 5
        [(0, [NArgumentInstruction op_mov [IntegerLiteral 5, RegisterLiteral ''ACC''],
              NArgumentInstruction op_add [IntegerLiteral 3, RegisterLiteral ''ACC''],
              NArgumentInstruction op_mov [RegisterLiteral ''ACC'', PortLiteral (Dir DOWN)]]),
         (5, receiver_program)] Map.empty
       = Inl TISSyntaxError"
proof -
  have p: "parse scenario_source
     = Some (Inr [(0, [NArgumentInstruction op_mov [IntegerLiteral 5, RegisterLiteral ''ACC''],
                       NArgumentInstruction op_add [IntegerLiteral 3, RegisterLiteral ''ACC''],
                       NArgumentInstruction op_mov
                         [RegisterLiteral ''ACC'', PortLiteral (Dir DOWN)]]),
                  (5, receiver_program)])"
    by (simp add: scenario_source_def receiver_program_def front_eval)
  have b: "build_machine 4 5
        [(0, [NArgumentInstruction op_mov [IntegerLiteral 5, RegisterLiteral ''ACC''],
              NArgumentInstruction op_add [IntegerLiteral 3, RegisterLiteral ''ACC''],
              NArgumentInstruction op_mov [RegisterLiteral ''ACC'', PortLiteral (Dir DOWN)]]),
         (5, receiver_program)] Map.empty
       = Inl TISSyntaxError"
    by (simp add: TISNode_def Let_def make_label_table_def value_types_def
        instr_arg_num_check_def instr_arg_type_check_def)
  show ?thesis by (rule conjI[OF p b])
qed

end
